theory Spec2Isabelle
  imports Complex_Main "HOL-Library.Word" "HOL-Library.Sublist" "HOL-Library.Log_Nat"
begin

section \<open>JavaScript numbers\<close>

text \<open>
  Every number of \<^verbatim>\<open>ImageResizer.jsx\<close> is an IEEE 754 binary64 value. A finite one is
  carried by the rational it denotes; the two zeros are identified, which the program
  cannot observe: it divides only by \<^verbatim>\<open>100\<close> and by
  \<^verbatim>\<open>image.naturalWidth / image.naturalHeight\<close> (never a negative zero), and neither
  \<^verbatim>\<open>||\<close> nor a template literal tells \<^verbatim>\<open>-0\<close> from \<^verbatim>\<open>0\<close>.
\<close>

datatype jsnum = NaN | PInf | NInf | Fin rat

text \<open>Rounding to the nearest integer, a tie going to the even one.\<close>

definition round_half_even :: "rat \<Rightarrow> int" where
  "round_half_even q =
     (let f = \<lfloor>q\<rfloor>; d = q - of_int f
      in if d < 1 / 2 then f else if 1 / 2 < d then f + 1 else if even f then f else f + 1)"

text \<open>The binary exponent of a positive rational: \<open>2 powi ilog2 a \<le> a < 2 powi (ilog2 a + 1)\<close>.\<close>

definition ilog2 :: "rat \<Rightarrow> int" where
  "ilog2 a = (if 1 \<le> a then bitlen \<lfloor>a\<rfloor> - 1 else - bitlen (\<lceil>1 / a\<rceil> - 1))"

text \<open>
  The binary64 value of an exact result (round to nearest, ties to even): 53 significant
  bits, exponents from \<open>-1022\<close> (below it the spacing stays \<open>2 ^ -1074\<close>) to \<open>1023\<close>,
  infinity from \<open>2 ^ 1024\<close> on.
\<close>

definition fl :: "rat \<Rightarrow> jsnum" where
  "fl r =
     (if r = 0 then Fin 0
      else
        let a = \<bar>r\<bar>;
            e = max (ilog2 a) (- 1022);
            u = 2 powi (e - 52);
            v = of_int (round_half_even (a / u)) * u
        in if 2 powi 1024 \<le> v then (if 0 < r then PInf else NInf)
           else Fin (if 0 < r then v else - v))"

text \<open>\<^verbatim>\<open>a * b\<close>\<close>

fun js_mul :: "jsnum \<Rightarrow> jsnum \<Rightarrow> jsnum" where
  "js_mul NaN _ = NaN"
| "js_mul _ NaN = NaN"
| "js_mul (Fin a) (Fin b) = fl (a * b)"
| "js_mul (Fin a) PInf = (if a = 0 then NaN else if 0 < a then PInf else NInf)"
| "js_mul (Fin a) NInf = (if a = 0 then NaN else if 0 < a then NInf else PInf)"
| "js_mul PInf (Fin b) = (if b = 0 then NaN else if 0 < b then PInf else NInf)"
| "js_mul NInf (Fin b) = (if b = 0 then NaN else if 0 < b then NInf else PInf)"
| "js_mul PInf PInf = PInf"
| "js_mul PInf NInf = NInf"
| "js_mul NInf PInf = NInf"
| "js_mul NInf NInf = PInf"

text \<open>\<^verbatim>\<open>a / b\<close>; a zero divisor is the positive zero.\<close>

fun js_div :: "jsnum \<Rightarrow> jsnum \<Rightarrow> jsnum" where
  "js_div NaN _ = NaN"
| "js_div _ NaN = NaN"
| "js_div (Fin a) (Fin b) =
     (if b = 0 then (if a = 0 then NaN else if 0 < a then PInf else NInf) else fl (a / b))"
| "js_div (Fin a) PInf = Fin 0"
| "js_div (Fin a) NInf = Fin 0"
| "js_div PInf (Fin b) = (if 0 \<le> b then PInf else NInf)"
| "js_div NInf (Fin b) = (if 0 \<le> b then NInf else PInf)"
| "js_div PInf PInf = NaN"
| "js_div PInf NInf = NaN"
| "js_div NInf PInf = NaN"
| "js_div NInf NInf = NaN"

text \<open>\<^verbatim>\<open>Math.round(x)\<close>: the nearest integer, a tie going up.\<close>

fun Math_round :: "jsnum \<Rightarrow> jsnum" where
  "Math_round (Fin r) = Fin (of_int \<lfloor>r + 1 / 2\<rfloor>)"
| "Math_round x = x"

text \<open>\<^verbatim>\<open>a || b\<close> on numbers: \<^verbatim>\<open>NaN\<close> and zero are falsy.\<close>

definition truthy :: "jsnum \<Rightarrow> bool" where
  "truthy x = (x \<noteq> NaN \<and> x \<noteq> Fin 0)"

definition js_or :: "jsnum \<Rightarrow> jsnum \<Rightarrow> jsnum" where
  "js_or a b = (if truthy a then a else b)"

text \<open>An \<^verbatim>\<open>unsigned long\<close> attribute read as a number: always exact.\<close>

definition num_of_ulong :: "32 word \<Rightarrow> jsnum" where
  "num_of_ulong w = Fin (of_nat (unat w))"

section \<open>The component's state\<close>

record html_image =
  naturalWidth :: "32 word"
  naturalHeight :: "32 word"

text \<open>
  A \<^verbatim>\<open>File\<close> object: \<open>fid\<close> is the object's identity (two objects are the same one
  exactly when their \<open>fid\<close> agree), \<open>fname\<close> and \<open>ftype\<close> its \<^verbatim>\<open>name\<close> and \<^verbatim>\<open>type\<close>.
\<close>

record jsfile =
  fid :: nat
  fname :: string
  ftype :: string

type_synonym blob = "nat list"

text \<open>
  The canvas element behind \<^verbatim>\<open>canvasRef\<close>: the numbers last assigned to its
  \<^verbatim>\<open>width\<close> and \<^verbatim>\<open>height\<close>, and the image last drawn over all of it.
\<close>

record canvas =
  cwidth :: jsnum
  cheight :: jsnum
  drawn :: "html_image option"

text \<open>
  The \<^verbatim>\<open>useState\<close> cells and the canvas ref of \<^verbatim>\<open>ImageResizer\<close>; \<^verbatim>\<open>null\<close> is \<open>None\<close>.
  The cells \<^verbatim>\<open>file\<close> and \<^verbatim>\<open>image\<close> are \<open>file_s\<close> and \<open>image_s\<close> here.
\<close>

record state =
  file_s :: "jsfile option"
  image_s :: "html_image option"
  previewUrl :: "string option"
  width :: jsnum
  height :: jsnum
  percent :: jsnum
  usePercent :: bool
  keepAspect :: bool
  quality :: jsnum
  format :: string
  canvasRef :: "canvas option"

text \<open>What \<^verbatim>\<open>resizeToBlobUrl\<close> resolves to when it is not \<^verbatim>\<open>null\<close>.\<close>

record result =
  res_blob :: blob
  res_url :: string
  res_width :: jsnum
  res_height :: jsnum

text \<open>
  The browser functions the component calls and whose code is not the repository's:
  \<^verbatim>\<open>Number(v)\<close> on a string, what \<^verbatim>\<open>canvas.toBlob\<close> hands to its callback
  (\<open>None\<close> for \<^verbatim>\<open>null\<close>), \<^verbatim>\<open>URL.createObjectURL\<close>, and the digits a template
  literal prints for a finite number that is not an integer below \<open>2 ^ 53\<close> in size
  (an integer below it prints as its decimal digits).
\<close>

record platform =
  toNumber :: "string \<Rightarrow> jsnum"
  toBlob :: "canvas \<Rightarrow> string \<Rightarrow> jsnum \<Rightarrow> blob option"
  createObjectURL :: "blob \<Rightarrow> string"
  otherDigits :: "rat \<Rightarrow> string"

text \<open>How a promise settles.\<close>

datatype 'a promise = Resolved 'a | Rejected string

text \<open>What a handler does that the user or the browser can observe.\<close>

datatype action =
  Alert string
| WindowOpen string string
| AnchorDownload string string
| RevokeObjectURLAfter string nat

section \<open>The functions of \<^verbatim>\<open>ImageResizer.jsx\<close>\<close>

text \<open>Lines 48 to 60 of \<^verbatim>\<open>resizeToBlobUrl\<close>: \<^verbatim>\<open>targetW\<close> and \<^verbatim>\<open>targetH\<close>.\<close>

definition targetDims :: "state \<Rightarrow> html_image \<Rightarrow> jsnum \<times> jsnum" where
  "targetDims s img =
     (if usePercent s then
        let factor = js_div (percent s) (Fin 100)
        in (Math_round (js_mul (num_of_ulong (naturalWidth img)) factor),
            Math_round (js_mul (num_of_ulong (naturalHeight img)) factor))
      else if keepAspect s then
        let aspect = js_div (num_of_ulong (naturalWidth img)) (num_of_ulong (naturalHeight img))
        in (width s, Math_round (js_div (width s) aspect))
      else (width s, height s))"

text \<open>Lines 62 to 67: the canvas sized to the target and the image drawn over all of it.\<close>

definition drawCanvas :: "state \<Rightarrow> html_image \<Rightarrow> canvas \<Rightarrow> canvas" where
  "drawCanvas s img c =
     (let (targetW, targetH) = targetDims s img
      in c\<lparr>cwidth := targetW, cheight := targetH, drawn := Some img\<rparr>)"

text \<open>
  \<^verbatim>\<open>resizeToBlobUrl\<close>: how its promise settles, and the state with the canvas as the
  call leaves it. The function has no \<^verbatim>\<open>throw\<close> and no \<^verbatim>\<open>reject\<close>.
\<close>

definition resizeToBlobUrl :: "platform \<Rightarrow> state \<Rightarrow> result option promise \<times> state" where
  "resizeToBlobUrl P s =
     (case (image_s s, canvasRef s) of
        (Some img, Some c) \<Rightarrow>
          let (targetW, targetH) = targetDims s img;
              c' = drawCanvas s img c;
              s' = s\<lparr>canvasRef := Some c'\<rparr>
          in (case toBlob P c' (format s) (quality s) of
                None \<Rightarrow> (Resolved None, s')
              | Some b \<Rightarrow>
                  (Resolved (Some \<lparr>res_blob = b, res_url = createObjectURL P b,
                                    res_width = targetW, res_height = targetH\<rparr>), s'))
      | _ \<Rightarrow> (Resolved None, s))"

definition startsWith :: "string \<Rightarrow> string \<Rightarrow> bool" where
  "startsWith t p = prefix p t"

definition handleFile :: "jsfile option \<Rightarrow> state \<Rightarrow> state \<times> action list" where
  "handleFile f s =
     (case f of
        None \<Rightarrow> (s, [])
      | Some f' \<Rightarrow>
          if \<not> startsWith (ftype f') ''image/'' then (s, [Alert ''Please upload an image file.''])
          else (s\<lparr>file_s := Some f'\<rparr>, []))"

text \<open>
  \<^verbatim>\<open>Object.is\<close> on two values of the \<^verbatim>\<open>file\<close> cell: \<^verbatim>\<open>null\<close> is itself, and two
  \<^verbatim>\<open>File\<close> objects are compared by identity, whatever their names and types.
\<close>

definition same_file :: "jsfile option \<Rightarrow> jsfile option \<Rightarrow> bool" where
  "same_file a b =
     (case (a, b) of
        (None, None) \<Rightarrow> True
      | (Some x, Some y) \<Rightarrow> fid x = fid y
      | _ \<Rightarrow> False)"

text \<open>
  The effect \<^verbatim>\<open>useEffect(..., [file])\<close> decodes the file; React runs it after a render in
  which \<^verbatim>\<open>file\<close> is not the same object as in the render before.
\<close>

definition loadEffectDue :: "state \<Rightarrow> state \<Rightarrow> bool" where
  "loadEffectDue s s' = (\<not> same_file (file_s s') (file_s s))"

text \<open>\<^verbatim>\<open>img.onload\<close> of that effect; \<open>up\<close> is the \<^verbatim>\<open>usePercent\<close> the effect closed over.\<close>

definition img_onload :: "bool \<Rightarrow> html_image \<Rightarrow> state \<Rightarrow> state" where
  "img_onload up img s =
     (let s1 = s\<lparr>image_s := Some img\<rparr>
      in if \<not> up then s1\<lparr>width := num_of_ulong (naturalWidth img),
                          height := num_of_ulong (naturalHeight img)\<rparr>
         else s1)"

definition handleDrop :: "jsfile list \<Rightarrow> state \<Rightarrow> state \<times> action list" where
  "handleDrop fs s = handleFile (case fs of [] \<Rightarrow> None | f # _ \<Rightarrow> Some f) s"

definition handleResizeClick :: "platform \<Rightarrow> state \<Rightarrow> state \<times> action list" where
  "handleResizeClick P s =
     (case resizeToBlobUrl P s of
        (Resolved (Some r), s') \<Rightarrow> (s', [WindowOpen (res_url r) ''_blank''])
      | (_, s') \<Rightarrow> (s', []))"

text \<open>A non-negative integer in decimal, as a template literal prints it.\<close>

fun dec_nat :: "nat \<Rightarrow> string" where
  "dec_nat n =
     (if n < 10 then [''0123456789'' ! n]
      else dec_nat (n div 10) @ [''0123456789'' ! (n mod 10)])"

declare dec_nat.simps [simp del]

definition dec_int :: "int \<Rightarrow> string" where
  "dec_int i = (if i < 0 then ''-'' @ dec_nat (nat (- i)) else dec_nat (nat i))"

text \<open>\<^verbatim>\<open>${x}\<close> for a number \<^verbatim>\<open>x\<close>.\<close>

definition numToString :: "platform \<Rightarrow> jsnum \<Rightarrow> string" where
  "numToString P x =
     (case x of
        NaN \<Rightarrow> ''NaN''
      | PInf \<Rightarrow> ''Infinity''
      | NInf \<Rightarrow> ''-Infinity''
      | Fin r \<Rightarrow>
          if r = of_int \<lfloor>r\<rfloor> \<and> \<bar>r\<bar> < 2 ^ 53 then dec_int \<lfloor>r\<rfloor> else otherDigits P r)"

text \<open>Lines 112 and 113 of \<^verbatim>\<open>handleDownload\<close>: the extension and the file name.\<close>

definition ext_of :: "string \<Rightarrow> string" where
  "ext_of fmt =
     (if fmt = ''image/png'' then ''png'' else if fmt = ''image/webp'' then ''webp'' else ''jpg'')"

definition download_name :: "platform \<Rightarrow> string \<Rightarrow> result \<Rightarrow> string" where
  "download_name P fmt r =
     ''resized-'' @ numToString P (res_width r) @ ''x'' @ numToString P (res_height r)
       @ ''.'' @ ext_of fmt"

definition handleDownload :: "platform \<Rightarrow> state \<Rightarrow> state \<times> action list" where
  "handleDownload P s =
     (case resizeToBlobUrl P s of
        (Resolved (Some r), s') \<Rightarrow>
          (s', [AnchorDownload (res_url r) (download_name P (format s) r),
                RevokeObjectURLAfter (res_url r) 2000])
      | (_, s') \<Rightarrow> (s', []))"

text \<open>The \<^verbatim>\<open>onClick\<close> of the Clear button.\<close>

definition clear_onClick :: "state \<Rightarrow> state" where
  "clear_onClick s = s\<lparr>file_s := None, image_s := None, previewUrl := None\<rparr>"

definition handleWidthChange :: "platform \<Rightarrow> string \<Rightarrow> state \<Rightarrow> state" where
  "handleWidthChange P v s =
     (let n = js_or (toNumber P v) (Fin 0);
          s1 = s\<lparr>width := n\<rparr>
      in case image_s s of
           Some img \<Rightarrow>
             if keepAspect s then
               let aspect = js_div (num_of_ulong (naturalWidth img)) (num_of_ulong (naturalHeight img))
               in s1\<lparr>height := Math_round (js_div n aspect)\<rparr>
             else s1
         | None \<Rightarrow> s1)"

definition handleHeightChange :: "platform \<Rightarrow> string \<Rightarrow> state \<Rightarrow> state" where
  "handleHeightChange P v s =
     (let n = js_or (toNumber P v) (Fin 0);
          s1 = s\<lparr>height := n\<rparr>
      in case image_s s of
           Some img \<Rightarrow>
             if keepAspect s then
               let aspect = js_div (num_of_ulong (naturalWidth img)) (num_of_ulong (naturalHeight img))
               in s1\<lparr>width := Math_round (js_mul n aspect)\<rparr>
             else s1
         | None \<Rightarrow> s1)"

text \<open>The user's edits of the two size fields, in the order they are made.\<close>

datatype edit = EditWidth string | EditHeight string

fun apply_edit :: "platform \<Rightarrow> edit \<Rightarrow> state \<Rightarrow> state" where
  "apply_edit P (EditWidth v) s = handleWidthChange P v s"
| "apply_edit P (EditHeight v) s = handleHeightChange P v s"

definition apply_edits :: "platform \<Rightarrow> edit list \<Rightarrow> state \<Rightarrow> state" where
  "apply_edits P es s = fold (apply_edit P) es s"

section \<open>The specification's arithmetic\<close>

text \<open>
  The specification rounds exact quotients: \<open>round\<close> is the nearest integer, a tie
  going up as in \<^verbatim>\<open>Math.round\<close>, and the percent rule is
  \<open>round (natural * factor / 100)\<close>.
\<close>

definition spec_round :: "rat \<Rightarrow> int" where
  "spec_round q = \<lfloor>q + 1 / 2\<rfloor>"

definition spec_percent_dim :: "nat \<Rightarrow> nat \<Rightarrow> int" where
  "spec_percent_dim n p = spec_round (of_nat n * of_nat p / 100)"

section \<open>Concrete inputs\<close>

text \<open>The state after the first render: the \<^verbatim>\<open>useState\<close> defaults and an empty canvas.\<close>

definition initial_state :: state where
  "initial_state =
     \<lparr>file_s = None, image_s = None, previewUrl = None,
      width = Fin 800, height = Fin 600, percent = Fin 100,
      usePercent = False, keepAspect = True, quality = fl (9 / 10),
      format = ''image/jpeg'',
      canvasRef = Some \<lparr>cwidth = Fin 300, cheight = Fin 150, drawn = None\<rparr>\<rparr>"

text \<open>
  A browser for the concrete runs below. Its \<^verbatim>\<open>Number\<close> is right on the empty string,
  on strings of decimal digits and on strings that are no numeric literal (the only ones
  used here); its encoder yields four bytes when both sizes assigned to the canvas are at
  least 1 and below \<open>2 ^ 31\<close>, and \<^verbatim>\<open>null\<close> otherwise, as a browser does for a canvas
  without pixels.
\<close>

fun digits_value :: "string \<Rightarrow> nat \<Rightarrow> nat option" where
  "digits_value [] acc = Some acc"
| "digits_value (c # cs) acc =
     (if c \<in> set ''0123456789'' then digits_value cs (10 * acc + (of_char c - 48)) else None)"

definition has_pixels :: "jsnum \<Rightarrow> bool" where
  "has_pixels x = (case x of Fin r \<Rightarrow> 1 \<le> r \<and> r < 2 ^ 31 | _ \<Rightarrow> False)"

definition stub_browser :: platform where
  "stub_browser =
     \<lparr>toNumber = (\<lambda>v. case digits_value v 0 of Some n \<Rightarrow> fl (of_nat n) | None \<Rightarrow> NaN),
      toBlob = (\<lambda>c fmt q. if has_pixels (cwidth c) \<and> has_pixels (cheight c)
                            then Some [137, 80, 78, 71] else None),
      createObjectURL = (\<lambda>b. ''blob:resized''),
      otherDigits = (\<lambda>r. ''?'')\<rparr>"

text \<open>The state once a picked file has been decoded to \<open>img\<close>, nothing else touched.\<close>

definition state_loaded :: "html_image \<Rightarrow> state" where
  "state_loaded img =
     img_onload False img
       (initial_state\<lparr>file_s := Some \<lparr>fid = 1, fname = ''photo.png'', ftype = ''image/png''\<rparr>,
                      previewUrl := Some ''blob:original''\<rparr>)"


text \<open>After loading \<open>img\<close>, percent mode switched on and the slider moved to \<open>p\<close>.\<close>

definition state_percent :: "html_image \<Rightarrow> nat \<Rightarrow> state" where
  "state_percent img p = (state_loaded img)\<lparr>usePercent := True, percent := Fin (of_nat p)\<rparr>"

text \<open>An 800 by 600 image loaded, then the width field emptied.\<close>

definition state_width_cleared :: state where
  "state_width_cleared =
     handleWidthChange stub_browser [] (state_loaded \<lparr>naturalWidth = 800, naturalHeight = 600\<rparr>)"

section \<open>Rounding to binary64\<close>

lemma ilog2_ge1:
  assumes "1 \<le> a"
  shows "2 powi (ilog2 a) \<le> a \<and> a < 2 powi (ilog2 a + 1)"
proof -
  let ?n = "\<lfloor>a\<rfloor>"
  have n: "0 < ?n" using assms by simp
  from bitlen_bounds [OF n] have lo: "2 ^ nat (bitlen ?n - 1) \<le> ?n" and hi: "?n < 2 ^ nat (bitlen ?n)"
    by auto
  have b1: "1 \<le> bitlen ?n" using n by (simp add: bitlen_alt_def)
  have e: "ilog2 a = bitlen ?n - 1" using assms by (simp add: ilog2_def)
  have "(2::rat) powi (bitlen ?n - 1) = 2 ^ nat (bitlen ?n - 1)"
    using b1 by (simp add: power_int_def)
  also have "\<dots> = of_int (2 ^ nat (bitlen ?n - 1))" by simp
  also have "\<dots> \<le> of_int ?n" using lo by (simp only: of_int_le_iff)
  also have "\<dots> \<le> a" by simp
  finally have L: "2 powi (ilog2 a) \<le> a" by (simp add: e)
  have "?n + 1 \<le> 2 ^ nat (bitlen ?n)" using hi by simp
  then have "(of_int (?n + 1) :: rat) \<le> of_int (2 ^ nat (bitlen ?n))" by (simp only: of_int_le_iff)
  moreover have "a < of_int (?n + 1)" by linarith
  ultimately have "a < of_int (2 ^ nat (bitlen ?n))" by linarith
  moreover have "(2::rat) powi (bitlen ?n) = 2 ^ nat (bitlen ?n)"
    using b1 by (simp add: power_int_def)
  ultimately have "a < 2 powi (ilog2 a + 1)" by (simp add: e)
  with L show ?thesis by simp
qed

lemma ilog2_lt1:
  assumes "0 < a" "a < 1"
  shows "2 powi (ilog2 a) \<le> a \<and> a < 2 powi (ilog2 a + 1)"
proof -
  let ?b = "1 / a"
  let ?m = "\<lceil>?b\<rceil> - 1"
  have b: "1 < ?b" using assms by simp
  then have m: "0 < ?m" by linarith
  from bitlen_bounds [OF m] have lo: "2 ^ nat (bitlen ?m - 1) \<le> ?m" and hi: "?m < 2 ^ nat (bitlen ?m)"
    by auto
  have k1: "1 \<le> bitlen ?m" using m by (simp add: bitlen_alt_def)
  have e: "ilog2 a = - bitlen ?m" using assms by (simp add: ilog2_def)
  have "?m + 1 \<le> 2 ^ nat (bitlen ?m)" using hi by simp
  then have "(of_int (?m + 1) :: rat) \<le> of_int (2 ^ nat (bitlen ?m))" by (simp only: of_int_le_iff)
  moreover have "?b \<le> of_int (?m + 1)" by linarith
  ultimately have "?b \<le> of_int (2 ^ nat (bitlen ?m))" by linarith
  then have bhi: "?b \<le> 2 ^ nat (bitlen ?m)" by simp
  have "(of_int (2 ^ nat (bitlen ?m - 1)) :: rat) \<le> of_int ?m" using lo by (simp only: of_int_le_iff)
  moreover have "of_int ?m < ?b" by linarith
  ultimately have "of_int (2 ^ nat (bitlen ?m - 1)) < ?b" by linarith
  then have blo: "2 ^ nat (bitlen ?m - 1) < ?b" by simp
  have p1: "(2::rat) powi (- bitlen ?m) = 1 / 2 ^ nat (bitlen ?m)"
    using k1 by (simp add: power_int_def field_simps)
  have p2: "(2::rat) powi (1 - bitlen ?m) = 1 / 2 ^ nat (bitlen ?m - 1)"
    using k1 by (cases "bitlen ?m = 1") (simp_all add: power_int_def field_simps)
  have "1 / 2 ^ nat (bitlen ?m) \<le> a"
    using bhi assms by (simp add: field_simps)
  moreover have "a < 1 / 2 ^ nat (bitlen ?m - 1)"
    using blo assms by (simp add: field_simps)
  ultimately show ?thesis by (simp add: e p1 p2)
qed

lemma ilog2_bounds:
  "0 < a \<Longrightarrow> 2 powi (ilog2 a) \<le> a \<and> a < 2 powi (ilog2 a + 1)"
  using ilog2_ge1 [of a] ilog2_lt1 [of a] by (cases "1 \<le> a") auto

lemma ilog2_unique:
  assumes "0 < a" "2 powi e \<le> a" "a < 2 powi (e + 1)"
  shows "ilog2 a = e"
proof -
  from ilog2_bounds [OF assms(1)] have lo: "2 powi (ilog2 a) \<le> a" and hi: "a < 2 powi (ilog2 a + 1)"
    by auto
  have "(2::rat) powi e < 2 powi (ilog2 a + 1)" using assms(2) hi by linarith
  then have "e < ilog2 a + 1"
    using power_int_increasing [of "ilog2 a + 1" e "2::rat"] by (cases "e < ilog2 a + 1") auto
  moreover have "(2::rat) powi (ilog2 a) < 2 powi (e + 1)" using lo assms(3) by linarith
  then have "ilog2 a < e + 1"
    using power_int_increasing [of "e + 1" "ilog2 a" "2::rat"] by (cases "ilog2 a < e + 1") auto
  ultimately show ?thesis by simp
qed

lemma round_half_even_err: "\<bar>of_int (round_half_even q) - q\<bar> \<le> 1 / 2"
proof -
  have "of_int \<lfloor>q\<rfloor> \<le> q" and "q < of_int \<lfloor>q\<rfloor> + 1" by linarith+
  then show ?thesis by (auto simp: round_half_even_def Let_def abs_le_iff)
qed

text \<open>
  A positive value with binary exponent \<open>e\<close> in the normal range rounds to a multiple
  of \<open>2 powi (e - 52)\<close> at most half that spacing away.
\<close>

lemma fl_normal:
  assumes "0 < r" "2 powi e \<le> r" "r < 2 powi (e + 1)" "- 1022 \<le> e" "e < 1023"
  shows "fl r = Fin (of_int (round_half_even (r / 2 powi (e - 52))) * 2 powi (e - 52))"
    and "\<bar>of_int (round_half_even (r / 2 powi (e - 52))) * 2 powi (e - 52) - r\<bar> \<le> 2 powi (e - 53)"
proof -
  define u :: rat where "u = 2 powi (e - 52)"
  define v :: rat where "v = of_int (round_half_even (r / u)) * u"
  have u_pos: "0 < u" by (simp add: u_def)
  have "v - r = (of_int (round_half_even (r / u)) - r / u) * u"
    using u_pos by (simp add: v_def left_diff_distrib)
  then have "\<bar>v - r\<bar> = \<bar>of_int (round_half_even (r / u)) - r / u\<bar> * u"
    using u_pos by (simp add: abs_mult)
  also have "\<dots> \<le> 1 / 2 * u" using round_half_even_err [of "r / u"] u_pos by (intro mult_right_mono) simp_all
  also have "\<dots> = 2 powi (e - 53)"
    by (simp add: u_def power_int_diff)
  finally have err: "\<bar>v - r\<bar> \<le> 2 powi (e - 53)" .
  have "(2::rat) powi (e - 53) \<le> 2 powi (e + 1)" by (intro power_int_increasing) simp_all
  with err assms(3) have "v < 2 powi (e + 1) + 2 powi (e + 1)" by (simp add: abs_le_iff)
  also have "\<dots> = 2 powi (e + 2)" by (simp add: power_int_add)
  also have "\<dots> \<le> 2 powi 1024" using assms(5) by (intro power_int_increasing) simp_all
  finally have fin: "\<not> 2 powi 1024 \<le> v" by simp
  have "ilog2 r = e" using assms(1-3) by (rule ilog2_unique)
  then have "max (ilog2 r) (- 1022) = e" using assms(4) by simp
  then have "fl r = Fin v" using assms(1) fin by (simp add: fl_def Let_def v_def u_def)
  then show "fl r = Fin (of_int (round_half_even (r / 2 powi (e - 52))) * 2 powi (e - 52))"
    by (simp add: v_def u_def)
  show "\<bar>of_int (round_half_even (r / 2 powi (e - 52))) * 2 powi (e - 52) - r\<bar> \<le> 2 powi (e - 53)"
    using err by (simp add: v_def u_def)
qed

text \<open>The relative error of one rounding in the normal range is at most \<open>2 powi - 53\<close>.\<close>

lemma fl_rel_err:
  assumes "2 powi (- 1022) \<le> r" "r < 2 powi 1023"
  shows "\<exists>v. fl r = Fin v \<and> \<bar>v - r\<bar> \<le> r * 2 powi (- 53)"
proof -
  have pos: "0 < r" using assms(1) zero_less_power_int [of "2::rat" "- 1022"] by linarith
  define e where "e = ilog2 r"
  have lo: "2 powi e \<le> r" and hi: "r < 2 powi (e + 1)"
    using ilog2_bounds [OF pos] by (simp_all add: e_def)
  have e_ge: "- 1022 \<le> e"
  proof (rule ccontr)
    assume "\<not> - 1022 \<le> e"
    then have "e + 1 \<le> - 1022" by simp
    then have "(2::rat) powi (e + 1) \<le> 2 powi (- 1022)" by (intro power_int_increasing) simp_all
    with hi assms(1) show False by linarith
  qed
  have e_lt: "e < 1023"
  proof (rule ccontr)
    assume "\<not> e < 1023"
    then have "(2::rat) powi 1023 \<le> 2 powi e" by (intro power_int_increasing) simp_all
    with lo assms(2) show False by linarith
  qed
  have "(2::rat) powi (e - 53) = 2 powi e * 2 powi (- 53)"
    by (simp add: power_int_diff power_int_minus field_simps)
  also have "\<dots> \<le> r * 2 powi (- 53)" using lo by (intro mult_right_mono) simp_all
  finally show ?thesis
    using fl_normal [OF pos lo hi e_ge e_lt] by (intro exI conjI) (assumption, linarith)
qed

lemma floor_rat_numeral:
  "\<lfloor>numeral a / numeral b :: rat\<rfloor> = numeral a div numeral b"
  by (metis floor_divide_of_int_eq of_int_numeral)

lemma ulong_range: "unat (w :: 32 word) < 2 ^ 32"
  using unsigned_less [of w, where 'a = nat] by simp

lemma aspect_pos:
  assumes "nw \<noteq> 0" "nh \<noteq> 0"
  shows "\<exists>v. js_div (num_of_ulong nw) (num_of_ulong nh) = Fin v \<and> 0 < v"
proof -
  define a :: rat where "a = of_nat (unat nw)"
  define b :: rat where "b = of_nat (unat nh)"
  have "1 \<le> unat nw" "1 \<le> unat nh" using assms by (simp_all add: unat_gt_0 Suc_le_eq)
  then have "(of_nat 1 :: rat) \<le> of_nat (unat nw)" "(of_nat 1 :: rat) \<le> of_nat (unat nh)"
    by (simp_all only: of_nat_le_iff)
  then have a1: "1 \<le> a" and b1: "1 \<le> b" by (simp_all add: a_def b_def)
  have "unat nw < 2 ^ 32" "unat nh < 2 ^ 32" by (rule ulong_range)+
  then have "of_nat (unat nw) < (of_nat (2 ^ 32) :: rat)" "of_nat (unat nh) < (of_nat (2 ^ 32) :: rat)"
    by (simp_all only: of_nat_less_iff)
  then have a2: "a < 2 ^ 32" and b2: "b < 2 ^ 32" by (simp_all add: a_def b_def)
  have "1 / 2 ^ 32 \<le> 1 / b" using b1 b2 by (simp add: field_simps)
  also have "\<dots> \<le> a / b" using a1 b1 by (simp add: field_simps)
  finally have lo': "1 / 2 ^ 32 \<le> a / b" .
  have "(2::rat) powi (- 1022) \<le> 2 powi (- 32)" by (intro power_int_increasing) simp_all
  also have "\<dots> = 1 / 2 ^ 32" by (simp add: power_int_minus_divide)
  finally have lo: "2 powi (- 1022) \<le> a / b" using lo' by linarith
  have "a / b \<le> a" using a1 b1 by (simp add: field_simps)
  also have "\<dots> < 2 powi 32" using a2 by simp
  also have "\<dots> \<le> 2 powi 1023" by (intro power_int_increasing) simp_all
  finally have hi: "a / b < 2 powi 1023" .
  from fl_rel_err [OF lo hi] obtain v where v: "fl (a / b) = Fin v"
    and err: "\<bar>v - a / b\<bar> \<le> a / b * 2 powi (- 53)" by blast
  have pos: "0 < a / b" using a1 b1 by simp
  have "a / b * 2 powi (- 53) \<le> a / b * (1 / 2)"
    by (intro mult_left_mono) (use pos in \<open>simp_all add: power_int_minus_divide\<close>)
  with err have "a / b - a / b * (1 / 2) \<le> v" by (simp add: abs_le_iff)
  with pos have "0 < v" by simp
  moreover have "js_div (num_of_ulong nw) (num_of_ulong nh) = fl (a / b)"
    using b1 by (simp add: num_of_ulong_def a_def b_def)
  ultimately show ?thesis using v by simp
qed

lemma floor_half: "\<lfloor>1 / 2 :: rat\<rfloor> = 0"
  using floor_divide_of_int_eq [of 1 2, where ?'a = rat] by simp

lemma zero_over_aspect:
  assumes "nw \<noteq> 0" "nh \<noteq> 0"
  shows "Math_round (js_div (Fin 0) (js_div (num_of_ulong nw) (num_of_ulong nh))) = Fin 0"
    and "Math_round (js_mul (Fin 0) (js_div (num_of_ulong nw) (num_of_ulong nh))) = Fin 0"
proof -
  from aspect_pos [OF assms] obtain v
    where "js_div (num_of_ulong nw) (num_of_ulong nh) = Fin v" "0 < v" by blast
  then show "Math_round (js_div (Fin 0) (js_div (num_of_ulong nw) (num_of_ulong nh))) = Fin 0"
    and "Math_round (js_mul (Fin 0) (js_div (num_of_ulong nw) (num_of_ulong nh))) = Fin 0"
    by (simp_all add: fl_def floor_half)
qed

lemma percent_factor:
  assumes "1 \<le> p" "p \<le> (200::nat)"
  shows "\<exists>f. js_div (Fin (of_nat p)) (Fin 100) = Fin f
           \<and> \<bar>f - of_nat p / 100\<bar> \<le> of_nat p / 100 * 2 powi (- 53)"
proof -
  define x :: rat where "x = of_nat p / 100"
  have "(of_nat 1 :: rat) \<le> of_nat p" "(of_nat p :: rat) \<le> of_nat 200"
    using assms by (simp_all only: of_nat_le_iff)
  then have x1: "1 / 100 \<le> x" and x2: "x \<le> 2" by (simp_all add: x_def)
  have "(2::rat) powi (- 1022) \<le> 2 powi (- 7)" by (intro power_int_increasing) simp_all
  also have "\<dots> \<le> 1 / 100" by (simp add: power_int_minus_divide)
  finally have lo: "2 powi (- 1022) \<le> x" using x1 by linarith
  have "(2::rat) < 2 powi 2" by simp
  also have "\<dots> \<le> 2 powi 1023" by (intro power_int_increasing) simp_all
  finally have hi: "x < 2 powi 1023" using x2 by linarith
  from fl_rel_err [OF lo hi] show ?thesis by (simp add: x_def)
qed

lemma Fin_zero_times_percent:
  assumes "1 \<le> p" "p \<le> (200::nat)"
  shows "Math_round (js_mul (Fin 0) (js_div (Fin (of_nat p)) (Fin 100))) = Fin 0"
proof -
  from percent_factor [OF assms] obtain f where "js_div (Fin (of_nat p)) (Fin 100) = Fin f"
    by blast
  then show ?thesis by (simp add: fl_def floor_half)
qed

lemma num_of_ulong_zero: "num_of_ulong 0 = Fin 0"
  by (simp add: num_of_ulong_def)

lemma num_of_ulong_pos: "w \<noteq> 0 \<Longrightarrow> \<exists>a. num_of_ulong w = Fin a \<and> 0 < a"
proof -
  assume "w \<noteq> 0"
  then have "0 < unat w" by (simp add: unat_gt_0)
  then have "(0::rat) < of_nat (unat w)" by (simp only: of_nat_0_less_iff)
  then show ?thesis unfolding num_of_ulong_def by blast
qed

section \<open>Percent scaling against the exact quotient\<close>

text \<open>
  \<^verbatim>\<open>natural * (percent / 100)\<close> rounds twice before \<^verbatim>\<open>Math.round\<close>. For a natural
  dimension below \<open>2 ^ 32\<close> and a percent from 1 to 200 the double is within one
  two-hundredth of the exact quotient, so only a quotient exactly halfway between two
  integers can round differently, and then by one downwards.
\<close>

lemma spec_round_hundredths:
  "spec_round (of_int K / 100) = (K + 50) div 100"
proof -
  have "(of_int K / 100 + 1 / 2 :: rat) = of_int (K + 50) / of_int 100" by simp
  then show ?thesis
    unfolding spec_round_def by (simp only: floor_divide_of_int_eq)
qed

lemma round_near:
  fixes K :: int and g :: rat
  assumes "\<bar>g - of_int K / 100\<bar> \<le> 1 / 200"
  shows "(\<lfloor>g + 1 / 2\<rfloor> = (K + 50) div 100 \<or> \<lfloor>g + 1 / 2\<rfloor> = (K + 50) div 100 - 1)
       \<and> (K mod 100 \<noteq> 50 \<longrightarrow> \<lfloor>g + 1 / 2\<rfloor> = (K + 50) div 100)"
proof -
  define m where "m = (K + 50) div 100"
  have lo_i: "100 * m \<le> K + 50" and hi_i: "K + 50 \<le> 100 * m + 99"
    by (simp_all add: m_def)
  have "(of_int (100 * m) :: rat) \<le> of_int (K + 50)" using lo_i by (simp only: of_int_le_iff)
  then have lo: "of_int m \<le> of_int K / 100 + (1 / 2 :: rat)" by simp
  have "(of_int (K + 50) :: rat) \<le> of_int (100 * m + 99)" using hi_i by (simp only: of_int_le_iff)
  then have hi: "of_int K / 100 + (1 / 2 :: rat) \<le> of_int m + 99 / 100" by simp
  have g1: "of_int K / 100 - 1 / 200 \<le> g" and g2: "g \<le> of_int K / 100 + 1 / 200"
    using assms by linarith+
  have "g + 1 / 2 < of_int (m + 1)" using g2 hi by simp
  then have up: "\<lfloor>g + 1 / 2\<rfloor> < m + 1" by (simp only: floor_less_iff)
  have "of_int (m - 1) \<le> g + 1 / 2" using g1 lo by simp
  then have dn: "m - 1 \<le> \<lfloor>g + 1 / 2\<rfloor>" by (simp only: le_floor_iff)
  have ex: "m \<le> \<lfloor>g + 1 / 2\<rfloor>" if "K mod 100 \<noteq> 50"
  proof -
    have "K mod 100 = ((K + 50) mod 100 + 50) mod 100"
      by (simp add: mod_add_left_eq)
    with that have "(K + 50) mod 100 \<noteq> 0" by auto
    moreover have "0 \<le> (K + 50) mod 100" by simp
    moreover have "K + 50 = 100 * m + (K + 50) mod 100" by (simp add: m_def)
    ultimately have "100 * m + 1 \<le> K + 50" by linarith
    then have "(of_int (100 * m + 1) :: rat) \<le> of_int (K + 50)" by (simp only: of_int_le_iff)
    then have "of_int m + 1 / 100 \<le> of_int K / 100 + (1 / 2 :: rat)" by simp
    with g1 have "of_int m \<le> g + 1 / 2" by simp
    then show ?thesis by (simp only: le_floor_iff)
  qed
  from up dn ex show ?thesis unfolding m_def by auto
qed

lemma percent_product_err:
  fixes n :: "32 word" and p :: nat
  assumes "1 \<le> p" "p \<le> 200" "n \<noteq> 0"
  shows "\<exists>g. js_mul (num_of_ulong n) (js_div (Fin (of_nat p)) (Fin 100)) = Fin g
           \<and> \<bar>g - of_int (int (unat n * p)) / 100\<bar> \<le> 1 / 200"
proof -
  define N :: rat where "N = of_nat (unat n)"
  define x :: rat where "x = of_nat p / 100"
  define u :: rat where "u = 2 powi (- 53)"
  have u_val: "u = 1 / 2 ^ 53" by (simp add: u_def power_int_minus_divide)
  have u0: "0 \<le> u" and u1: "u \<le> 1" by (simp_all add: u_val)
  have "1 \<le> unat n" using assms(3) by (simp add: unat_gt_0 Suc_le_eq)
  then have "(of_nat 1 :: rat) \<le> of_nat (unat n)" by (simp only: of_nat_le_iff)
  then have N1: "1 \<le> N" by (simp add: N_def)
  have "of_nat (unat n) < (of_nat (2 ^ 32) :: rat)"
    using ulong_range [of n] by (simp only: of_nat_less_iff)
  then have N2: "N < 2 ^ 32" by (simp add: N_def)
  have "(of_nat 1 :: rat) \<le> of_nat p" "(of_nat p :: rat) \<le> of_nat 200"
    using assms(1,2) by (simp_all only: of_nat_le_iff)
  then have x1: "1 / 100 \<le> x" and x2: "x \<le> 2" by (simp_all add: x_def)
  from percent_factor [OF assms(1,2)] obtain f
    where f: "js_div (Fin (of_nat p)) (Fin 100) = Fin f" and ferr: "\<bar>f - x\<bar> \<le> x * u"
    by (auto simp: x_def u_def)
  have f_lo: "x - x * u \<le> f" and f_hi: "f \<le> x + x * u"
    using ferr by linarith+
  have xu: "x * u \<le> x * (1 / 2)" using x1 by (intro mult_left_mono) (simp_all add: u_val)
  have f_pos: "1 / 200 \<le> f" using f_lo xu x1 by linarith
  have f_le: "f \<le> 4" using f_hi x2 u0 u1 mult_mono [of x 2 u 1] by linarith
  define y :: rat where "y = N * f"
  have y_lo': "1 / 200 \<le> y"
    using mult_mono [of 1 N "1 / 200" f] N1 f_pos by (simp add: y_def)
  have "(2::rat) powi (- 1022) \<le> 2 powi (- 8)" by (intro power_int_increasing) simp_all
  also have "\<dots> \<le> 1 / 200" by (simp add: power_int_minus_divide)
  finally have y_lo: "2 powi (- 1022) \<le> y" using y_lo' by linarith
  have "y \<le> 2 ^ 32 * 4"
    unfolding y_def using N1 N2 f_pos f_le by (intro mult_mono) simp_all
  also have "\<dots> < 2 powi 35" by simp
  also have "\<dots> \<le> 2 powi 1023" by (intro power_int_increasing) simp_all
  finally have y_hi: "y < 2 powi 1023" .
  from fl_rel_err [OF y_lo y_hi] obtain g where g: "fl y = Fin g" and gerr: "\<bar>g - y\<bar> \<le> y * u"
    by (auto simp: u_def)
  define X :: rat where "X = N * x"
  have X0: "0 \<le> X" using N1 x1 by (simp add: X_def)
  have "X \<le> 2 ^ 32 * 2" unfolding X_def using N1 N2 x1 x2 by (intro mult_mono) simp_all
  then have X_hi: "X \<le> 2 ^ 33" by simp
  have "y - X = N * (f - x)" by (simp add: y_def X_def right_diff_distrib)
  then have "\<bar>y - X\<bar> = N * \<bar>f - x\<bar>"
    using N1 by (simp add: abs_mult)
  also have "\<dots> \<le> N * (x * u)" using ferr N1 by (intro mult_left_mono) simp_all
  finally have yX: "\<bar>y - X\<bar> \<le> X * u" by (simp add: X_def mult.assoc)
  have "X * u \<le> X * 1" using X0 u1 by (intro mult_left_mono) simp_all
  with yX have y2X: "y \<le> 2 * X" by (simp add: abs_le_iff)
  have y0: "0 \<le> y" using y_lo' by linarith
  have "y * u \<le> (2 * X) * u" using y2X u0 by (intro mult_right_mono) simp_all
  with gerr have gy: "\<bar>g - y\<bar> \<le> 2 * X * u" by linarith
  have "\<bar>g - X\<bar> \<le> \<bar>g - y\<bar> + \<bar>y - X\<bar>" by linarith
  also have "\<dots> \<le> 3 * X * u" using gy yX by linarith
  also have "\<dots> \<le> 3 * 2 ^ 33 * u" using X_hi u0 by (intro mult_right_mono) simp_all
  also have "\<dots> \<le> 1 / 200" by (simp add: u_val)
  finally have err: "\<bar>g - X\<bar> \<le> 1 / 200" .
  have Xeq: "X = of_int (int (unat n * p)) / 100" by (simp add: X_def N_def x_def)
  have e2: "\<bar>g - of_int (int (unat n * p)) / 100\<bar> \<le> 1 / 200"
    using err by (simp only: Xeq)
  have "js_mul (num_of_ulong n) (Fin f) = Fin g"
    using g by (simp add: num_of_ulong_def y_def N_def)
  then have "js_mul (num_of_ulong n) (js_div (Fin (of_nat p)) (Fin 100)) = Fin g"
    by (simp only: f)
  with e2 show ?thesis by blast
qed

lemma percent_dim:
  fixes n :: "32 word" and p :: nat
  assumes "1 \<le> p" "p \<le> 200"
  shows "\<exists>k. Math_round (js_mul (num_of_ulong n) (js_div (Fin (of_nat p)) (Fin 100))) = Fin (of_int k)
           \<and> (k = spec_percent_dim (unat n) p \<or> k = spec_percent_dim (unat n) p - 1)
           \<and> (unat n * p mod 100 \<noteq> 50 \<longrightarrow> k = spec_percent_dim (unat n) p)"
proof (cases "n = 0")
  case True
  have "spec_percent_dim 0 p = 0" by (simp add: spec_percent_dim_def spec_round_def floor_half)
  then show ?thesis
    using True Fin_zero_times_percent [OF assms] by (simp add: num_of_ulong_zero)
next
  case False
  define K where "K = int (unat n * p)"
  from percent_product_err [OF assms False] obtain g
    where g: "js_mul (num_of_ulong n) (js_div (Fin (of_nat p)) (Fin 100)) = Fin g"
      and err: "\<bar>g - of_int K / 100\<bar> \<le> 1 / 200" by (auto simp: K_def)
  have m: "spec_percent_dim (unat n) p = (K + 50) div 100"
    using spec_round_hundredths [of K] by (simp add: spec_percent_dim_def K_def)
  have mod: "K mod 100 \<noteq> 50" if "unat n * p mod 100 \<noteq> 50"
  proof -
    have "K mod 100 = int (unat n * p mod 100)" by (simp add: K_def zmod_int)
    with that show ?thesis by simp
  qed
  have R: "Math_round (js_mul (num_of_ulong n) (js_div (Fin (of_nat p)) (Fin 100)))
      = Fin (of_int \<lfloor>g + 1 / 2\<rfloor>)"
    by (simp only: g Math_round.simps)
  from round_near [OF err]
  have a: "\<lfloor>g + 1 / 2\<rfloor> = (K + 50) div 100 \<or> \<lfloor>g + 1 / 2\<rfloor> = (K + 50) div 100 - 1"
    and b: "K mod 100 \<noteq> 50 \<longrightarrow> \<lfloor>g + 1 / 2\<rfloor> = (K + 50) div 100"
    by blast+
  show ?thesis
  proof (intro exI conjI impI)
    show "Math_round (js_mul (num_of_ulong n) (js_div (Fin (of_nat p)) (Fin 100)))
      = Fin (of_int \<lfloor>g + 1 / 2\<rfloor>)" by (rule R)
    show "\<lfloor>g + 1 / 2\<rfloor> = spec_percent_dim (unat n) p
      \<or> \<lfloor>g + 1 / 2\<rfloor> = spec_percent_dim (unat n) p - 1"
      using a by (simp only: m)
    assume "unat n * p mod 100 \<noteq> 50"
    then have "K mod 100 \<noteq> 50" by (rule mod)
    then have "\<lfloor>g + 1 / 2\<rfloor> = (K + 50) div 100" by (rule b [rule_format])
    then show "\<lfloor>g + 1 / 2\<rfloor> = spec_percent_dim (unat n) p" by (simp only: m)
  qed
qed

text \<open>The six ways in which the exact quotient is one half; the code gives 1 in each.\<close>

lemma factors_of_50:
  assumes "N * p = (50::nat)"
  shows "(N = 50 \<and> p = 1) \<or> (N = 25 \<and> p = 2) \<or> (N = 10 \<and> p = 5)
       \<or> (N = 5 \<and> p = 10) \<or> (N = 2 \<and> p = 25) \<or> (N = 1 \<and> p = 50)"
proof -
  have "p \<le> 7 \<or> N \<le> 7"
  proof (rule ccontr)
    assume "\<not> (p \<le> 7 \<or> N \<le> 7)"
    then have "8 \<le> N" "8 \<le> p" by simp_all
    then have "8 * 8 \<le> N * p" by (rule mult_le_mono)
    with assms show False by simp
  qed
  then show ?thesis
  proof
    assume "p \<le> 7"
    then have "p = 0 \<or> p = 1 \<or> p = 2 \<or> p = 3 \<or> p = 4 \<or> p = 5 \<or> p = 6 \<or> p = 7" by linarith
    then show ?thesis using assms by (elim disjE; simp; presburger)
  next
    assume "N \<le> 7"
    then have "N = 0 \<or> N = 1 \<or> N = 2 \<or> N = 3 \<or> N = 4 \<or> N = 5 \<or> N = 6 \<or> N = 7" by linarith
    then show ?thesis using assms by (elim disjE; simp; presburger)
  qed
qed

lemma half_50_1:
  "Math_round (js_mul (Fin 50) (js_div (Fin 1) (Fin 100))) = Fin 1"
proof -
  have a: "fl (1 / 100) = Fin (5764607523034235 / 576460752303423488)"
    by (subst fl_normal(1) [where e = "-7"]) (simp_all add: round_half_even_def Let_def floor_rat_numeral)
  have b: "fl (144115188075855875 / 288230376151711744) = Fin (1 / 2)"
    by (subst fl_normal(1) [where e = "-1"]) (simp_all add: round_half_even_def Let_def floor_rat_numeral)
  show ?thesis by (simp add: a b)
qed

lemma half_25_2:
  "Math_round (js_mul (Fin 25) (js_div (Fin 2) (Fin 100))) = Fin 1"
proof -
  have a: "fl (1 / 50) = Fin (5764607523034235 / 288230376151711744)"
    by (subst fl_normal(1) [where e = "-6"]) (simp_all add: round_half_even_def Let_def floor_rat_numeral)
  have b: "fl (144115188075855875 / 288230376151711744) = Fin (1 / 2)"
    by (subst fl_normal(1) [where e = "-1"]) (simp_all add: round_half_even_def Let_def floor_rat_numeral)
  show ?thesis by (simp add: a b)
qed

lemma half_10_5:
  "Math_round (js_mul (Fin 10) (js_div (Fin 5) (Fin 100))) = Fin 1"
proof -
  have a: "fl (1 / 20) = Fin (3602879701896397 / 72057594037927936)"
    by (subst fl_normal(1) [where e = "-5"]) (simp_all add: round_half_even_def Let_def floor_rat_numeral)
  have b: "fl (18014398509481985 / 36028797018963968) = Fin (1 / 2)"
    by (subst fl_normal(1) [where e = "-1"]) (simp_all add: round_half_even_def Let_def floor_rat_numeral)
  show ?thesis by (simp add: a b)
qed

lemma half_5_10:
  "Math_round (js_mul (Fin 5) (js_div (Fin 10) (Fin 100))) = Fin 1"
proof -
  have a: "fl (1 / 10) = Fin (3602879701896397 / 36028797018963968)"
    by (subst fl_normal(1) [where e = "-4"]) (simp_all add: round_half_even_def Let_def floor_rat_numeral)
  have b: "fl (18014398509481985 / 36028797018963968) = Fin (1 / 2)"
    by (subst fl_normal(1) [where e = "-1"]) (simp_all add: round_half_even_def Let_def floor_rat_numeral)
  show ?thesis by (simp add: a b)
qed

lemma half_2_25:
  "Math_round (js_mul (Fin 2) (js_div (Fin 25) (Fin 100))) = Fin 1"
proof -
  have a: "fl (1 / 4) = Fin (1 / 4)"
    by (subst fl_normal(1) [where e = "-2"]) (simp_all add: round_half_even_def Let_def floor_rat_numeral)
  have b: "fl (1 / 2) = Fin (1 / 2)"
    by (subst fl_normal(1) [where e = "-1"]) (simp_all add: round_half_even_def Let_def floor_rat_numeral)
  show ?thesis by (simp add: a b)
qed

lemma half_1_50:
  "Math_round (js_mul (Fin 1) (js_div (Fin 50) (Fin 100))) = Fin 1"
proof -
  have a: "fl (1 / 2) = Fin (1 / 2)"
    by (subst fl_normal(1) [where e = "-1"]) (simp_all add: round_half_even_def Let_def floor_rat_numeral)
  have b: "fl (1 / 2) = Fin (1 / 2)"
    by (subst fl_normal(1) [where e = "-1"]) (simp_all add: round_half_even_def Let_def floor_rat_numeral)
  show ?thesis by (simp add: a b)
qed

lemma half_quotient:
  assumes "N * p = (50::nat)"
  shows "Math_round (js_mul (Fin (of_nat N)) (js_div (Fin (of_nat p)) (Fin 100))) = Fin 1"
  using factors_of_50 [OF assms]
  by (elim disjE conjE)
    (simp_all only: of_nat_numeral of_nat_1 half_50_1 half_25_2 half_10_5 half_5_10 half_2_25
      half_1_50)

lemma percent_dim_sign:
  fixes n :: "32 word" and p :: nat
  assumes "1 \<le> p" "p \<le> 200"
  shows "\<exists>k. Math_round (js_mul (num_of_ulong n) (js_div (Fin (of_nat p)) (Fin 100))) = Fin (of_int k)
           \<and> 0 \<le> k \<and> (1 \<le> k \<longleftrightarrow> 50 \<le> unat n * p)"
proof -
  define K where "K = unat n * p"
  consider "K = 50" | "K < 50" | "50 < K" by linarith
  then show ?thesis
  proof cases
    case 1
    then have "Math_round (js_mul (Fin (of_nat (unat n))) (js_div (Fin (of_nat p)) (Fin 100))) = Fin 1"
      unfolding K_def by (rule half_quotient)
    then have "Math_round (js_mul (num_of_ulong n) (js_div (Fin (of_nat p)) (Fin 100)))
        = Fin (of_int 1)"
      by (simp only: num_of_ulong_def of_int_1)
    moreover have "(0::int) \<le> 1 \<and> ((1::int) \<le> 1 \<longleftrightarrow> 50 \<le> unat n * p)"
      using 1 by (simp add: K_def)
    ultimately show ?thesis by blast
  next
    case 2
    from percent_dim [OF assms, of n] obtain k
      where r: "Math_round (js_mul (num_of_ulong n) (js_div (Fin (of_nat p)) (Fin 100))) = Fin (of_int k)"
        and ex: "unat n * p mod 100 \<noteq> 50 \<longrightarrow> k = spec_percent_dim (unat n) p"
      by blast
    have "K mod 100 = K" using 2 by simp
    with 2 have "unat n * p mod 100 \<noteq> 50" by (simp add: K_def)
    with ex have "k = spec_percent_dim (unat n) p" by blast
    also have "\<dots> = (int K + 50) div 100"
      using spec_round_hundredths [of "int K"] by (simp add: spec_percent_dim_def K_def)
    also have "\<dots> = 0" using 2 by simp
    finally have "k = 0" .
    with r 2 show ?thesis by (intro exI [of _ k]) (simp add: K_def)
  next
    case 3
    from percent_dim [OF assms, of n] obtain k
      where r: "Math_round (js_mul (num_of_ulong n) (js_div (Fin (of_nat p)) (Fin 100))) = Fin (of_int k)"
        and alt: "k = spec_percent_dim (unat n) p \<or> k = spec_percent_dim (unat n) p - 1"
        and ex: "unat n * p mod 100 \<noteq> 50 \<longrightarrow> k = spec_percent_dim (unat n) p"
      by blast
    have m: "spec_percent_dim (unat n) p = (int K + 50) div 100"
      using spec_round_hundredths [of "int K"] by (simp add: spec_percent_dim_def K_def)
    have "1 \<le> k"
    proof (cases "K mod 100 = 50")
      case True
      have "K = 100 * (K div 100) + K mod 100" by simp
      with True 3 have "1 \<le> K div 100" by linarith
      with True \<open>K = 100 * (K div 100) + K mod 100\<close> have "150 \<le> K" by linarith
      then have "(200::int) \<le> int K + 50" by simp
      then have "(200::int) div 100 \<le> (int K + 50) div 100" by (intro zdiv_mono1) simp_all
      with alt m show ?thesis by auto
    next
      case False
      with ex have "k = spec_percent_dim (unat n) p" by (simp add: K_def)
      moreover have "(100::int) \<le> int K + 50" using 3 by simp
      then have "(100::int) div 100 \<le> (int K + 50) div 100" by (intro zdiv_mono1) simp_all
      ultimately show ?thesis using m by simp
    qed
    with r 3 show ?thesis by (intro exI [of _ k]) (simp add: K_def)
  qed
qed

section \<open>The concrete inputs evaluated\<close>

lemma stub_Number_empty: "toNumber stub_browser [] = Fin 0"
  by (simp add: stub_browser_def fl_def)

lemma stub_Number_abc: "toNumber stub_browser ''abc'' = NaN"
  by (simp add: stub_browser_def)

lemma state_loaded_simps:
  "image_s (state_loaded img) = Some img" "keepAspect (state_loaded img)"
  "\<not> usePercent (state_loaded img)"
  "width (state_loaded img) = num_of_ulong (naturalWidth img)"
  "height (state_loaded img) = num_of_ulong (naturalHeight img)"
  "format (state_loaded img) = ''image/jpeg''"
  "canvasRef (state_loaded img) = Some \<lparr>cwidth = Fin 300, cheight = Fin 150, drawn = None\<rparr>"
  by (simp_all add: state_loaded_def img_onload_def initial_state_def Let_def)

lemma fl_800: "fl 800 = Fin 800"
  by (subst fl_normal(1) [where e = 9]) (simp_all add: round_half_even_def Let_def)

lemma stub_Number_800: "toNumber stub_browser ''800'' = Fin 800"
  by (simp add: stub_browser_def fl_800)

lemma fl_100: "fl 100 = Fin 100"
  by (subst fl_normal(1) [where e = 6]) (simp_all add: round_half_even_def Let_def)

lemma stub_Number_100: "toNumber stub_browser ''100'' = Fin 100"
  by (simp add: stub_browser_def fl_100)

lemma aspect_100x300:
  "js_div (num_of_ulong 100) (num_of_ulong 300) = Fin (6004799503160661 / 18014398509481984)"
  unfolding num_of_ulong_def
  by (simp, subst fl_normal(1) [where e = "- 2"]) (simp_all add: round_half_even_def Let_def floor_rat_numeral)

lemma width_for_height_100:
  "Math_round (js_mul (Fin 100) (Fin (6004799503160661 / 18014398509481984))) = Fin 33"
  by (simp, subst fl_normal(1) [where e = 5]) (simp_all add: round_half_even_def Let_def floor_rat_numeral)

lemma height_for_width_33:
  "Math_round (js_div (Fin 33) (Fin (6004799503160661 / 18014398509481984))) = Fin 99"
  by (simp, subst fl_normal(1) [where e = 6]) (simp_all add: round_half_even_def Let_def floor_rat_numeral)

lemma state_percent_simps:
  "usePercent (state_percent img p)" "percent (state_percent img p) = Fin (of_nat p)"
  "image_s (state_percent img p) = Some img"
  "format (state_percent img p) = ''image/jpeg''"
  "canvasRef (state_percent img p) = Some \<lparr>cwidth = Fin 300, cheight = Fin 150, drawn = None\<rparr>"
  by (simp_all add: state_percent_def state_loaded_simps)

lemma target_50_at_29:
  "Math_round (js_mul (Fin 50) (js_div (Fin 29) (Fin 100))) = Fin 14"
proof -
  have a: "fl (29 / 100) = Fin (5224175567749775 / 18014398509481984)"
    by (subst fl_normal(1) [where e = "- 2"]) (simp_all add: round_half_even_def Let_def floor_rat_numeral)
  have b: "fl (130604389193744375 / 9007199254740992) = Fin (8162774324609023 / 562949953421312)"
    by (subst fl_normal(1) [where e = 3]) (simp_all add: round_half_even_def Let_def floor_rat_numeral)
  show ?thesis by (simp add: a b floor_rat_numeral)
qed

lemma target_1_at_1:
  "Math_round (js_mul (Fin 1) (js_div (Fin 1) (Fin 100))) = Fin 0"
proof -
  have a: "fl (1 / 100) = Fin (5764607523034235 / 576460752303423488)"
    by (subst fl_normal(1) [where e = "- 7"]) (simp_all add: round_half_even_def Let_def floor_rat_numeral)
  have b: "fl (5764607523034235 / 576460752303423488) = Fin (5764607523034235 / 576460752303423488)"
    by (subst fl_normal(1) [where e = "- 7"]) (simp_all add: round_half_even_def Let_def floor_rat_numeral)
  show ?thesis by (simp add: a b floor_rat_numeral)
qed

lemma fl_1: "fl 1 = Fin 1"
  by (subst fl_normal(1) [where e = 0]) (simp_all add: round_half_even_def Let_def)

lemma stub_Number_1: "toNumber stub_browser ''1'' = Fin 1"
  by (simp add: stub_browser_def fl_1)

lemma aspect_800x1: "js_div (num_of_ulong 800) (num_of_ulong 1) = Fin 800"
  by (simp add: num_of_ulong_def fl_800)

lemma height_for_width_1: "Math_round (js_div (Fin 1) (Fin 800)) = Fin 0"
  by (simp, subst fl_normal(1) [where e = "- 10"])
    (simp_all add: round_half_even_def Let_def floor_rat_numeral)

lemma width_1_on_800x1:
  "handleWidthChange stub_browser ''1'' (state_loaded \<lparr>naturalWidth = 800, naturalHeight = 1\<rparr>)
   = (state_loaded \<lparr>naturalWidth = 800, naturalHeight = 1\<rparr>)\<lparr>width := Fin 1, height := Fin 0\<rparr>"
  by (simp add: handleWidthChange_def stub_Number_1 state_loaded_simps aspect_800x1
      height_for_width_1 js_or_def truthy_def Let_def
      del: js_mul.simps js_div.simps Math_round.simps)

lemma targetDims_800x600_at_50:
  "targetDims (state_percent \<lparr>naturalWidth = 800, naturalHeight = 600\<rparr> 50)
     \<lparr>naturalWidth = 800, naturalHeight = 600\<rparr> = (Fin 400, Fin 300)"
proof -
  have m: "spec_percent_dim 800 50 = 400" "spec_percent_dim 600 50 = 300"
    using spec_round_hundredths [of 40000] spec_round_hundredths [of 30000]
    by (simp_all add: spec_percent_dim_def)
  from percent_dim [of 50 800] m(1)
  have w: "Math_round (js_mul (num_of_ulong 800) (js_div (Fin (of_nat 50)) (Fin 100))) = Fin 400"
    by auto
  from percent_dim [of 50 600] m(2)
  have h: "Math_round (js_mul (num_of_ulong 600) (js_div (Fin (of_nat 50)) (Fin 100))) = Fin 300"
    by auto
  show ?thesis
    unfolding targetDims_def Let_def using w h
    by (simp add: state_percent_simps del: js_mul.simps js_div.simps Math_round.simps)
qed

section \<open>Clear\<close>

text \<open>
  C9: the Clear button sets \<^verbatim>\<open>file\<close>, \<^verbatim>\<open>image\<close> and \<^verbatim>\<open>previewUrl\<close> to \<^verbatim>\<open>null\<close> and
  leaves every other cell (\<^verbatim>\<open>width\<close>, \<^verbatim>\<open>height\<close>, \<^verbatim>\<open>percent\<close>, \<^verbatim>\<open>usePercent\<close>,
  \<^verbatim>\<open>keepAspect\<close>, \<^verbatim>\<open>quality\<close>, \<^verbatim>\<open>format\<close>) as it was.
\<close>

theorem clear_sets_exactly_three:
  "file_s (clear_onClick s) = None \<and> image_s (clear_onClick s) = None
   \<and> previewUrl (clear_onClick s) = None
   \<and> width (clear_onClick s) = width s \<and> height (clear_onClick s) = height s
   \<and> percent (clear_onClick s) = percent s \<and> usePercent (clear_onClick s) = usePercent s
   \<and> keepAspect (clear_onClick s) = keepAspect s \<and> quality (clear_onClick s) = quality s
   \<and> format (clear_onClick s) = format s \<and> canvasRef (clear_onClick s) = canvasRef s"
  by (simp add: clear_onClick_def)

section \<open>Nothing loaded\<close>

lemma resizeToBlobUrl_nothing:
  "image_s s = None \<or> canvasRef s = None \<Longrightarrow> resizeToBlobUrl P s = (Resolved None, s)"
  by (auto simp: resizeToBlobUrl_def split: option.splits)

text \<open>
  C8: with no image loaded, or no canvas, \<^verbatim>\<open>resizeToBlobUrl\<close> resolves to \<^verbatim>\<open>null\<close>, and
  both \<^verbatim>\<open>handleResizeClick\<close> and \<^verbatim>\<open>handleDownload\<close> do nothing that can be observed:
  no tab is opened, no anchor is made, and the state (the canvas included) is as before.
\<close>

theorem no_image_no_action:
  assumes "image_s s = None \<or> canvasRef s = None"
  shows "resizeToBlobUrl P s = (Resolved None, s)
         \<and> handleResizeClick P s = (s, []) \<and> handleDownload P s = (s, [])"
  using resizeToBlobUrl_nothing [OF assms]
  by (simp add: handleResizeClick_def handleDownload_def)

theorem no_image_no_action_witness:
  "image_s initial_state = None
   \<and> resizeToBlobUrl stub_browser initial_state = (Resolved None, initial_state)
   \<and> handleResizeClick stub_browser initial_state = (initial_state, [])
   \<and> handleDownload stub_browser initial_state = (initial_state, [])"
proof -
  have h: "image_s initial_state = None \<or> canvasRef initial_state = None"
    by (simp add: initial_state_def)
  show ?thesis
    using h no_image_no_action [OF h, of stub_browser] by (simp add: initial_state_def)
qed

section \<open>The input boundary\<close>

text \<open>
  C6: a file whose type does not start with \<^verbatim>\<open>image/\<close> is rejected with a message
  the user sees, from the file picker and from a drop alike: the state (file, image and
  preview with it) stays as it was, so the decoding effect keyed on \<^verbatim>\<open>file\<close> does not
  run, and nothing else happens.
\<close>

theorem handleFile_rejects_non_image:
  assumes "\<not> startsWith (ftype f) ''image/''"
  shows "handleFile (Some f) s = (s, [Alert ''Please upload an image file.''])
         \<and> handleDrop (f # fs) s = (s, [Alert ''Please upload an image file.''])
         \<and> \<not> loadEffectDue s (fst (handleFile (Some f) s))"
  using assms
  by (simp add: handleFile_def handleDrop_def loadEffectDue_def same_file_def split: option.splits)

theorem handleFile_rejects_non_image_witness:
  "\<not> startsWith (ftype \<lparr>fid = 2, fname = ''notes.txt'', ftype = ''text/plain''\<rparr>) ''image/''
   \<and> handleFile (Some \<lparr>fid = 2, fname = ''notes.txt'', ftype = ''text/plain''\<rparr>) initial_state
       = (initial_state, [Alert ''Please upload an image file.''])"
proof -
  have h: "\<not> startsWith (ftype \<lparr>fid = 2, fname = ''notes.txt'', ftype = ''text/plain''\<rparr>) ''image/''"
    by (simp add: startsWith_def)
  show ?thesis
    using h handleFile_rejects_non_image [OF h, of initial_state "[]"] by simp
qed

section \<open>The download's file name\<close>





section \<open>Empty and non-numeric size fields\<close>

text \<open>
  C10: a width field that is empty (\<^verbatim>\<open>Number\<close> gives 0) or not numeric (\<^verbatim>\<open>Number\<close> gives
  \<^verbatim>\<open>NaN\<close>) is coerced to 0 and stored as \<^verbatim>\<open>width = 0\<close>; with keep-aspect on and an
  image of positive natural dimensions loaded, the derived height stored is
  \<open>round (0 / aspect) = 0\<close> too. The same holds for the height field, so zero
  dimensions can stand in the state.
\<close>

theorem empty_input_stores_zero:
  assumes "toNumber P v = NaN \<or> toNumber P v = Fin 0"
  shows "width (handleWidthChange P v s) = Fin 0 \<and> height (handleHeightChange P v s) = Fin 0
         \<and> (\<forall>img. keepAspect s \<and> image_s s = Some img
                  \<and> naturalWidth img \<noteq> 0 \<and> naturalHeight img \<noteq> 0
               \<longrightarrow> height (handleWidthChange P v s) = Fin 0
                   \<and> width (handleHeightChange P v s) = Fin 0)"
proof -
  have n: "js_or (toNumber P v) (Fin 0) = Fin 0"
    using assms(1) by (auto simp: js_or_def truthy_def)
  have "width (handleWidthChange P v s) = Fin 0"
    by (simp add: handleWidthChange_def n Let_def split: option.splits)
  moreover have "height (handleHeightChange P v s) = Fin 0"
    by (simp add: handleHeightChange_def n Let_def split: option.splits)
  moreover have "height (handleWidthChange P v s) = Fin 0 \<and> width (handleHeightChange P v s) = Fin 0"
    if "keepAspect s" "image_s s = Some img" "naturalWidth img \<noteq> 0" "naturalHeight img \<noteq> 0"
    for img
    using that(1,2) zero_over_aspect [OF that(3,4)]
    by (simp add: handleWidthChange_def handleHeightChange_def n Let_def)
  ultimately show ?thesis by blast
qed

theorem empty_input_stores_zero_witness:
  "toNumber stub_browser ''abc'' = NaN
   \<and> keepAspect (state_loaded \<lparr>naturalWidth = 800, naturalHeight = 600\<rparr>)
   \<and> width (handleWidthChange stub_browser ''abc''
        (state_loaded \<lparr>naturalWidth = 800, naturalHeight = 600\<rparr>)) = Fin 0
   \<and> height (handleWidthChange stub_browser ''abc''
        (state_loaded \<lparr>naturalWidth = 800, naturalHeight = 600\<rparr>)) = Fin 0"
proof -
  have h: "toNumber stub_browser ''abc'' = NaN \<or> toNumber stub_browser ''abc'' = Fin 0"
    by (simp add: stub_Number_abc)
  show ?thesis
    using empty_input_stores_zero [OF h, of "state_loaded \<lparr>naturalWidth = 800, naturalHeight = 600\<rparr>"]
    by (simp add: state_loaded_simps stub_Number_abc)
qed

section \<open>An encoder that yields no data\<close>

lemma state_width_cleared_eq:
  "state_width_cleared =
     (state_loaded \<lparr>naturalWidth = 800, naturalHeight = 600\<rparr>)\<lparr>width := Fin 0, height := Fin 0\<rparr>"
proof -
  have "Math_round (js_div (Fin 0) (js_div (num_of_ulong 800) (num_of_ulong 600))) = Fin 0"
    by (rule zero_over_aspect) simp_all
  then show ?thesis
    by (simp add: state_width_cleared_def handleWidthChange_def stub_Number_empty
        state_loaded_simps js_or_def truthy_def Let_def)
qed

lemma targetDims_width_cleared:
  "targetDims state_width_cleared \<lparr>naturalWidth = 800, naturalHeight = 600\<rparr> = (Fin 0, Fin 0)"
proof -
  have "Math_round (js_div (Fin 0) (js_div (num_of_ulong 800) (num_of_ulong 600))) = Fin 0"
    by (rule zero_over_aspect) simp_all
  then show ?thesis
    by (simp add: state_width_cleared_eq targetDims_def state_loaded_simps Let_def)
qed

lemma resize_resolves: "\<exists>x. fst (resizeToBlobUrl P s) = Resolved x"
  by (simp add: resizeToBlobUrl_def Let_def split: option.splits prod.splits)

text \<open>
  C5, as the code has it: when the encoder yields no data, \<^verbatim>\<open>resizeToBlobUrl\<close> resolves
  to \<^verbatim>\<open>null\<close>, the value it also resolves to when no image is loaded, and raises
  nothing; the preview and the download handler then return without a message, no tab is
  opened and no file is offered. Only the canvas has changed.
\<close>

theorem encoder_null_is_silent:
  assumes "image_s s = Some img" and "canvasRef s = Some c"
    and "toBlob P (drawCanvas s img c) (format s) (quality s) = None"
  shows "resizeToBlobUrl P s = (Resolved None, s\<lparr>canvasRef := Some (drawCanvas s img c)\<rparr>)
         \<and> handleResizeClick P s = (s\<lparr>canvasRef := Some (drawCanvas s img c)\<rparr>, [])
         \<and> handleDownload P s = (s\<lparr>canvasRef := Some (drawCanvas s img c)\<rparr>, [])"
proof -
  have "resizeToBlobUrl P s = (Resolved None, s\<lparr>canvasRef := Some (drawCanvas s img c)\<rparr>)"
    using assms by (simp add: resizeToBlobUrl_def Let_def split: prod.splits)
  then show ?thesis by (simp add: handleResizeClick_def handleDownload_def)
qed

lemma drawCanvas_width_cleared:
  "drawCanvas state_width_cleared \<lparr>naturalWidth = 800, naturalHeight = 600\<rparr>
     \<lparr>cwidth = Fin 300, cheight = Fin 150, drawn = None\<rparr>
   = \<lparr>cwidth = Fin 0, cheight = Fin 0, drawn = Some \<lparr>naturalWidth = 800, naturalHeight = 600\<rparr>\<rparr>"
  by (simp add: drawCanvas_def targetDims_width_cleared)

lemma width_cleared_fields:
  "image_s state_width_cleared = Some \<lparr>naturalWidth = 800, naturalHeight = 600\<rparr>"
  "canvasRef state_width_cleared = Some \<lparr>cwidth = Fin 300, cheight = Fin 150, drawn = None\<rparr>"
  by (simp_all add: state_width_cleared_eq state_loaded_simps)

lemma toBlob_width_cleared:
  "toBlob stub_browser
     (drawCanvas state_width_cleared \<lparr>naturalWidth = 800, naturalHeight = 600\<rparr>
        \<lparr>cwidth = Fin 300, cheight = Fin 150, drawn = None\<rparr>)
     (format state_width_cleared) (quality state_width_cleared) = None"
  by (simp add: drawCanvas_width_cleared stub_browser_def has_pixels_def)

theorem encoder_null_is_silent_witness:
  "fst (resizeToBlobUrl stub_browser state_width_cleared) = Resolved None
   \<and> snd (handleResizeClick stub_browser state_width_cleared) = []
   \<and> snd (handleDownload stub_browser state_width_cleared) = []"
  using encoder_null_is_silent [OF width_cleared_fields toBlob_width_cleared]
  by simp

text \<open>
  An 800 by 600 image is loaded, the width field is emptied and Preview or Download is
  pressed: the canvas has no pixel, the encoder yields \<^verbatim>\<open>null\<close>, and the promise is
  resolved with \<^verbatim>\<open>null\<close> as in the initial state; no error reaches a caller or the user.
\<close>

theorem encoder_null_not_surfaced:
  "toBlob stub_browser
     \<lparr>cwidth = Fin 0, cheight = Fin 0, drawn = Some \<lparr>naturalWidth = 800, naturalHeight = 600\<rparr>\<rparr>
     (format state_width_cleared) (quality state_width_cleared) = None
   \<and> fst (resizeToBlobUrl stub_browser state_width_cleared) = Resolved None
   \<and> fst (resizeToBlobUrl stub_browser initial_state) = Resolved None
   \<and> snd (handleResizeClick stub_browser state_width_cleared) = []
   \<and> snd (handleDownload stub_browser state_width_cleared) = []"
proof -
  have "resizeToBlobUrl stub_browser state_width_cleared =
      (Resolved None, state_width_cleared\<lparr>canvasRef :=
         Some \<lparr>cwidth = Fin 0, cheight = Fin 0,
               drawn = Some \<lparr>naturalWidth = 800, naturalHeight = 600\<rparr>\<rparr>\<rparr>)"
    using toBlob_width_cleared
    by (simp add: resizeToBlobUrl_def width_cleared_fields targetDims_width_cleared
        drawCanvas_width_cleared)
  moreover have "resizeToBlobUrl stub_browser initial_state = (Resolved None, initial_state)"
    by (simp add: resizeToBlobUrl_def initial_state_def)
  ultimately show ?thesis
    using toBlob_width_cleared
    by (simp add: handleResizeClick_def handleDownload_def drawCanvas_width_cleared)
qed

section \<open>A source with a zero dimension\<close>

text \<open>
  A decoded image of 0 by 600 (an SVG without intrinsic width, say): once it is loaded
  the target is \<open>(0, NaN)\<close>, and after 800 is typed as the width it is
  \<open>(800, Infinity)\<close>, which \<^verbatim>\<open>resizeToBlobUrl\<close> assigns to the canvas. Nothing fails.
\<close>

theorem degenerate_source_gives_NaN_Infinity:
  "targetDims (state_loaded \<lparr>naturalWidth = 0, naturalHeight = 600\<rparr>)
       \<lparr>naturalWidth = 0, naturalHeight = 600\<rparr> = (Fin 0, NaN)
   \<and> targetDims
       (handleWidthChange stub_browser ''800'' (state_loaded \<lparr>naturalWidth = 0, naturalHeight = 600\<rparr>))
       \<lparr>naturalWidth = 0, naturalHeight = 600\<rparr> = (Fin 800, PInf)
   \<and> canvasRef (snd (resizeToBlobUrl stub_browser
       (handleWidthChange stub_browser ''800'' (state_loaded \<lparr>naturalWidth = 0, naturalHeight = 600\<rparr>))))
     = Some \<lparr>cwidth = Fin 800, cheight = PInf,
             drawn = Some \<lparr>naturalWidth = 0, naturalHeight = 600\<rparr>\<rparr>"
proof -
  have a: "js_div (num_of_ulong 0) (num_of_ulong 600) = Fin 0"
    by (simp add: num_of_ulong_def fl_def)
  have s: "handleWidthChange stub_browser ''800'' (state_loaded \<lparr>naturalWidth = 0, naturalHeight = 600\<rparr>)
      = (state_loaded \<lparr>naturalWidth = 0, naturalHeight = 600\<rparr>)\<lparr>width := Fin 800, height := PInf\<rparr>"
    by (simp add: handleWidthChange_def stub_Number_800 state_loaded_simps a js_or_def truthy_def Let_def)
  have t: "targetDims ((state_loaded \<lparr>naturalWidth = 0, naturalHeight = 600\<rparr>)\<lparr>width := Fin 800, height := PInf\<rparr>)
       \<lparr>naturalWidth = 0, naturalHeight = 600\<rparr> = (Fin 800, PInf)"
    by (simp add: targetDims_def state_loaded_simps a Let_def)
  have "targetDims (state_loaded \<lparr>naturalWidth = 0, naturalHeight = 600\<rparr>)
       \<lparr>naturalWidth = 0, naturalHeight = 600\<rparr> = (Fin 0, NaN)"
    by (simp add: targetDims_def state_loaded_simps a Let_def) (simp add: num_of_ulong_def)
  then show ?thesis
    by (simp add: s t resizeToBlobUrl_def drawCanvas_def state_loaded_simps Let_def
        split: option.splits)
qed

text \<open>
  C3, as the code has it: with \<^verbatim>\<open>naturalWidth\<close> or \<^verbatim>\<open>naturalHeight\<close> zero, computing the
  target never fails (the promise of \<^verbatim>\<open>resizeToBlobUrl\<close> always resolves). In percent
  mode, for a percent from 1 to 200, a zero natural dimension gives the target 0. With
  keep-aspect on and percent off the target width is the stored width, and the target height
  is \<^verbatim>\<open>NaN\<close> when both natural dimensions are zero; when only the natural height is
  zero, 0 for a finite width and \<^verbatim>\<open>NaN\<close> otherwise; when only the natural width is zero,
  \<^verbatim>\<open>NaN\<close> for a width of 0 or \<^verbatim>\<open>NaN\<close>, \<^verbatim>\<open>Infinity\<close> for a positive width and
  \<^verbatim>\<open>-Infinity\<close> for a negative one. With both modes off the stored pair is the target.
\<close>

theorem degenerate_source_dims:
  assumes "naturalWidth img = 0 \<or> naturalHeight img = 0"
  shows "(\<exists>x. fst (resizeToBlobUrl P s) = Resolved x)
    \<and> (usePercent s \<and> percent s = Fin (of_nat p) \<and> 1 \<le> p \<and> p \<le> 200 \<longrightarrow>
          (naturalWidth img = 0 \<longrightarrow> fst (targetDims s img) = Fin 0)
          \<and> (naturalHeight img = 0 \<longrightarrow> snd (targetDims s img) = Fin 0))
    \<and> (\<not> usePercent s \<and> keepAspect s \<longrightarrow>
          targetDims s img =
            (width s,
             if naturalHeight img = 0 then
               (if naturalWidth img = 0 then NaN
                else case width s of Fin a \<Rightarrow> Fin 0 | _ \<Rightarrow> NaN)
             else
               (case width s of
                  Fin a \<Rightarrow> if a = 0 then NaN else if 0 < a then PInf else NInf
                | w \<Rightarrow> w)))
    \<and> (\<not> usePercent s \<and> \<not> keepAspect s \<longrightarrow> targetDims s img = (width s, height s))"
proof -
  have pct: "(naturalWidth img = 0 \<longrightarrow> fst (targetDims s img) = Fin 0)
      \<and> (naturalHeight img = 0 \<longrightarrow> snd (targetDims s img) = Fin 0)"
    if "usePercent s" "percent s = Fin (of_nat p)" "1 \<le> p" "p \<le> 200"
    using that(1,2) Fin_zero_times_percent [OF that(3,4)]
    by (simp add: targetDims_def Let_def num_of_ulong_def)
  have asp: "targetDims s img =
            (width s,
             if naturalHeight img = 0 then
               (if naturalWidth img = 0 then NaN
                else case width s of Fin a \<Rightarrow> Fin 0 | _ \<Rightarrow> NaN)
             else
               (case width s of
                  Fin a \<Rightarrow> if a = 0 then NaN else if 0 < a then PInf else NInf
                | w \<Rightarrow> w))"
    if "\<not> usePercent s" "keepAspect s"
  proof (cases "naturalHeight img = 0")
    case True
    show ?thesis
    proof (cases "naturalWidth img = 0")
      case True
      with \<open>naturalHeight img = 0\<close> show ?thesis using that
        by (cases "width s") (simp_all add: targetDims_def Let_def num_of_ulong_zero)
    next
      case False
      from num_of_ulong_pos [OF False] obtain a
        where "num_of_ulong (naturalWidth img) = Fin a" "0 < a" by blast
      with False \<open>naturalHeight img = 0\<close> show ?thesis using that
        by (cases "width s") (simp_all add: targetDims_def Let_def num_of_ulong_zero floor_half)
    qed
  next
    case False
    with assms have nw: "naturalWidth img = 0" by simp
    from num_of_ulong_pos [OF False] obtain b
      where "num_of_ulong (naturalHeight img) = Fin b" "0 < b" by blast
    then have "js_div (num_of_ulong (naturalWidth img)) (num_of_ulong (naturalHeight img)) = Fin 0"
      by (simp add: nw num_of_ulong_zero fl_def)
    then show ?thesis using that False
      by (cases "width s") (simp_all add: targetDims_def Let_def)
  qed
  have "targetDims s img = (width s, height s)" if "\<not> usePercent s" "\<not> keepAspect s"
    using that by (simp add: targetDims_def)
  with pct asp resize_resolves [of P s] show ?thesis by blast
qed

theorem degenerate_source_dims_witness:
  "naturalWidth \<lparr>naturalWidth = 0, naturalHeight = 600\<rparr> = 0
   \<and> keepAspect (state_loaded \<lparr>naturalWidth = 0, naturalHeight = 600\<rparr>)
   \<and> targetDims (state_loaded \<lparr>naturalWidth = 0, naturalHeight = 600\<rparr>)
       \<lparr>naturalWidth = 0, naturalHeight = 600\<rparr> = (Fin 0, NaN)
   \<and> fst (targetDims
        ((state_loaded \<lparr>naturalWidth = 0, naturalHeight = 600\<rparr>)\<lparr>usePercent := True, percent := Fin 50\<rparr>)
        \<lparr>naturalWidth = 0, naturalHeight = 600\<rparr>) = Fin 0"
proof -
  have h: "naturalWidth \<lparr>naturalWidth = 0, naturalHeight = 600\<rparr> = 0
      \<or> naturalHeight \<lparr>naturalWidth = 0, naturalHeight = 600\<rparr> = 0" by simp
  have p: "Fin 50 = Fin (of_nat 50)" by simp
  show ?thesis
    using degenerate_source_dims [OF h, of stub_browser "state_loaded \<lparr>naturalWidth = 0, naturalHeight = 600\<rparr>" 50]
      degenerate_source_dims [OF h, of stub_browser
        "(state_loaded \<lparr>naturalWidth = 0, naturalHeight = 600\<rparr>)\<lparr>usePercent := True, percent := Fin 50\<rparr>" 50]
    by (simp add: state_loaded_simps num_of_ulong_def)
qed

section \<open>Keep-aspect and the field edited last\<close>

lemma handleWidthChange_frame:
  "image_s (handleWidthChange P v s) = image_s s"
  "keepAspect (handleWidthChange P v s) = keepAspect s"
  "usePercent (handleWidthChange P v s) = usePercent s"
  by (simp_all add: handleWidthChange_def Let_def split: option.splits)

lemma handleHeightChange_frame:
  "image_s (handleHeightChange P v s) = image_s s"
  "keepAspect (handleHeightChange P v s) = keepAspect s"
  "usePercent (handleHeightChange P v s) = usePercent s"
  by (simp_all add: handleHeightChange_def Let_def split: option.splits)

lemma apply_edits_frame:
  "image_s (apply_edits P es s) = image_s s
   \<and> keepAspect (apply_edits P es s) = keepAspect s
   \<and> usePercent (apply_edits P es s) = usePercent s"
proof (induction es arbitrary: s)
  case Nil
  then show ?case by (simp add: apply_edits_def)
next
  case (Cons e es)
  have "apply_edits P (e # es) s = apply_edits P es (apply_edit P e s)"
    by (simp add: apply_edits_def)
  then show ?case
    using Cons.IH [of "apply_edit P e s"]
    by (cases e) (simp_all add: handleWidthChange_frame handleHeightChange_frame)
qed

lemma apply_edits_snoc: "apply_edits P (es @ [e]) s = apply_edit P e (apply_edits P es s)"
  by (simp add: apply_edits_def)

text \<open>
  A 100 by 300 image is loaded and 100 is typed as the height: the handler stores height
  100 and width 33, but the resize derives the height again from the width and uses
  33 by 99.
\<close>

theorem edited_height_not_kept:
  "height (handleHeightChange stub_browser ''100''
      (state_loaded \<lparr>naturalWidth = 100, naturalHeight = 300\<rparr>)) = Fin 100
   \<and> targetDims
       (handleHeightChange stub_browser ''100'' (state_loaded \<lparr>naturalWidth = 100, naturalHeight = 300\<rparr>))
       \<lparr>naturalWidth = 100, naturalHeight = 300\<rparr> = (Fin 33, Fin 99)"
  by (simp add: handleHeightChange_def targetDims_def state_loaded_simps stub_Number_100
      aspect_100x300 width_for_height_100 height_for_width_33 js_or_def truthy_def Let_def
      del: js_mul.simps js_div.simps Math_round.simps)

text \<open>
  C2, as the code has it: with keep-aspect on and percent off, the stored width is what
  the resize trusts, after any sequence of edits. If the width was edited last, the output
  width is the edited value and the output height \<open>round (width / aspect)\<close>. If the
  height was edited last, the output width is \<open>round (height * aspect)\<close> and the output
  height is derived from that width, \<open>round (round (height * aspect) / aspect)\<close>,
  which need not be the edited value.
\<close>

theorem keep_aspect_width_wins:
  assumes "image_s s = Some img" and "keepAspect s" and "\<not> usePercent s"
  shows "targetDims (apply_edits P (es @ [EditWidth v]) s) img =
           (js_or (toNumber P v) (Fin 0),
            Math_round (js_div (js_or (toNumber P v) (Fin 0))
               (js_div (num_of_ulong (naturalWidth img)) (num_of_ulong (naturalHeight img)))))
       \<and> targetDims (apply_edits P (es @ [EditHeight v]) s) img =
           (Math_round (js_mul (js_or (toNumber P v) (Fin 0))
               (js_div (num_of_ulong (naturalWidth img)) (num_of_ulong (naturalHeight img)))),
            Math_round (js_div
               (Math_round (js_mul (js_or (toNumber P v) (Fin 0))
                  (js_div (num_of_ulong (naturalWidth img)) (num_of_ulong (naturalHeight img)))))
               (js_div (num_of_ulong (naturalWidth img)) (num_of_ulong (naturalHeight img)))))
       \<and> image_s (apply_edits P (es @ [EditWidth v]) s) = Some img
       \<and> image_s (apply_edits P (es @ [EditHeight v]) s) = Some img"
proof -
  define t where "t = apply_edits P es s"
  have t: "image_s t = Some img" "keepAspect t" "\<not> usePercent t"
    using assms apply_edits_frame [of P es s] by (simp_all add: t_def)
  have "targetDims (handleWidthChange P v t) img =
           (js_or (toNumber P v) (Fin 0),
            Math_round (js_div (js_or (toNumber P v) (Fin 0))
               (js_div (num_of_ulong (naturalWidth img)) (num_of_ulong (naturalHeight img)))))"
    using t by (simp add: targetDims_def handleWidthChange_def Let_def)
  moreover have "targetDims (handleHeightChange P v t) img =
           (Math_round (js_mul (js_or (toNumber P v) (Fin 0))
               (js_div (num_of_ulong (naturalWidth img)) (num_of_ulong (naturalHeight img)))),
            Math_round (js_div
               (Math_round (js_mul (js_or (toNumber P v) (Fin 0))
                  (js_div (num_of_ulong (naturalWidth img)) (num_of_ulong (naturalHeight img)))))
               (js_div (num_of_ulong (naturalWidth img)) (num_of_ulong (naturalHeight img)))))"
    using t by (simp add: targetDims_def handleHeightChange_def Let_def)
  ultimately show ?thesis
    using t(1) by (simp add: apply_edits_snoc handleWidthChange_frame handleHeightChange_frame
        flip: t_def)
qed

theorem keep_aspect_width_wins_witness:
  "targetDims
     (apply_edits stub_browser [EditWidth ''800'', EditHeight ''100'']
        (state_loaded \<lparr>naturalWidth = 100, naturalHeight = 300\<rparr>))
     \<lparr>naturalWidth = 100, naturalHeight = 300\<rparr> = (Fin 33, Fin 99)"
  using keep_aspect_width_wins [of "state_loaded \<lparr>naturalWidth = 100, naturalHeight = 300\<rparr>"
      "\<lparr>naturalWidth = 100, naturalHeight = 300\<rparr>" stub_browser "[EditWidth ''800'']" "''100''"]
  by (simp add: state_loaded_simps stub_Number_100 aspect_100x300 width_for_height_100
      height_for_width_33 js_or_def truthy_def del: js_mul.simps js_div.simps Math_round.simps)

section \<open>Percent mode\<close>

text \<open>
  A 50 by 50 image at 29 percent: \<^verbatim>\<open>29 / 100\<close> is the double just below 0.29, the
  product is \<^verbatim>\<open>14.499999999999998\<close> and \<^verbatim>\<open>Math.round\<close> gives 14, where
  \<open>round (50 * 29 / 100) = round 14.5 = 15\<close>.
\<close>

theorem percent_29_of_50_is_14:
  "targetDims (state_percent \<lparr>naturalWidth = 50, naturalHeight = 50\<rparr> 29)
      \<lparr>naturalWidth = 50, naturalHeight = 50\<rparr> = (Fin 14, Fin 14)
   \<and> spec_percent_dim 50 29 = 15"
proof -
  have "spec_percent_dim 50 29 = 15"
    using spec_round_hundredths [of 1450] by (simp add: spec_percent_dim_def)
  moreover have "num_of_ulong 50 = Fin 50" by (simp add: num_of_ulong_def)
  ultimately show ?thesis
    using target_50_at_29
    by (simp add: targetDims_def state_percent_simps Let_def del: js_mul.simps js_div.simps Math_round.simps)
qed

text \<open>
  C4, as the code has it: in percent mode, for a percent from 1 to 200 (the slider's
  values), the target dimensions are \<^verbatim>\<open>Math.round(natural * (percent / 100))\<close> in
  binary64. Each equals \<open>round (natural * percent / 100)\<close> whenever that exact quotient
  is not halfway between two integers, and otherwise equals it or is one less.
\<close>

theorem percent_target_dims:
  assumes "usePercent s" and "percent s = Fin (of_nat p)" and "1 \<le> p" and "p \<le> 200"
  shows "\<exists>kw kh. targetDims s img = (Fin (of_int kw), Fin (of_int kh))
     \<and> (kw = spec_percent_dim (unat (naturalWidth img)) p
          \<or> kw = spec_percent_dim (unat (naturalWidth img)) p - 1)
     \<and> (unat (naturalWidth img) * p mod 100 \<noteq> 50
          \<longrightarrow> kw = spec_percent_dim (unat (naturalWidth img)) p)
     \<and> (kh = spec_percent_dim (unat (naturalHeight img)) p
          \<or> kh = spec_percent_dim (unat (naturalHeight img)) p - 1)
     \<and> (unat (naturalHeight img) * p mod 100 \<noteq> 50
          \<longrightarrow> kh = spec_percent_dim (unat (naturalHeight img)) p)"
proof -
  from percent_dim [OF assms(3,4), of "naturalWidth img"] obtain kw where
    w: "Math_round (js_mul (num_of_ulong (naturalWidth img)) (js_div (Fin (of_nat p)) (Fin 100)))
        = Fin (of_int kw)"
    "kw = spec_percent_dim (unat (naturalWidth img)) p
      \<or> kw = spec_percent_dim (unat (naturalWidth img)) p - 1"
    "unat (naturalWidth img) * p mod 100 \<noteq> 50
      \<longrightarrow> kw = spec_percent_dim (unat (naturalWidth img)) p"
    by blast
  from percent_dim [OF assms(3,4), of "naturalHeight img"] obtain kh where
    h: "Math_round (js_mul (num_of_ulong (naturalHeight img)) (js_div (Fin (of_nat p)) (Fin 100)))
        = Fin (of_int kh)"
    "kh = spec_percent_dim (unat (naturalHeight img)) p
      \<or> kh = spec_percent_dim (unat (naturalHeight img)) p - 1"
    "unat (naturalHeight img) * p mod 100 \<noteq> 50
      \<longrightarrow> kh = spec_percent_dim (unat (naturalHeight img)) p"
    by blast
  have "targetDims s img = (Fin (of_int kw), Fin (of_int kh))"
    unfolding targetDims_def Let_def using assms(1,2) w(1) h(1) by (simp only: if_True)
  with w(2,3) h(2,3) show ?thesis by blast
qed

theorem percent_target_dims_witness:
  "usePercent (state_percent \<lparr>naturalWidth = 800, naturalHeight = 600\<rparr> 50)
   \<and> targetDims (state_percent \<lparr>naturalWidth = 800, naturalHeight = 600\<rparr> 50)
         \<lparr>naturalWidth = 800, naturalHeight = 600\<rparr> = (Fin 400, Fin 300)"
proof -
  have "spec_percent_dim 800 50 = 400" "spec_percent_dim 600 50 = 300"
    using spec_round_hundredths [of 40000] spec_round_hundredths [of 30000]
    by (simp_all add: spec_percent_dim_def)
  then show ?thesis
    using percent_target_dims [of "state_percent \<lparr>naturalWidth = 800, naturalHeight = 600\<rparr> 50" 50
        "\<lparr>naturalWidth = 800, naturalHeight = 600\<rparr>"]
    by (auto simp: state_percent_simps)
qed

section \<open>No clamping of the output size\<close>

text \<open>
  A 1 by 1 image at 1 percent: both target dimensions are \<open>round 0.01 = 0\<close>, and
  the canvas is sized 0 by 0.
\<close>

theorem one_percent_of_1x1_is_0x0:
  "targetDims (state_percent \<lparr>naturalWidth = 1, naturalHeight = 1\<rparr> 1)
      \<lparr>naturalWidth = 1, naturalHeight = 1\<rparr> = (Fin 0, Fin 0)
   \<and> canvasRef (snd (resizeToBlobUrl stub_browser
        (state_percent \<lparr>naturalWidth = 1, naturalHeight = 1\<rparr> 1)))
     = Some \<lparr>cwidth = Fin 0, cheight = Fin 0, drawn = Some \<lparr>naturalWidth = 1, naturalHeight = 1\<rparr>\<rparr>"
proof -
  have "num_of_ulong 1 = Fin 1" by (simp add: num_of_ulong_def)
  then have t: "targetDims (state_percent \<lparr>naturalWidth = 1, naturalHeight = 1\<rparr> 1)
      \<lparr>naturalWidth = 1, naturalHeight = 1\<rparr> = (Fin 0, Fin 0)"
    using target_1_at_1
    by (simp add: targetDims_def state_percent_simps Let_def
        del: js_mul.simps js_div.simps Math_round.simps)
  then show ?thesis
    by (simp add: resizeToBlobUrl_def drawCanvas_def state_percent_simps Let_def
        split: option.splits)
qed

text \<open>
  C1, as the code has it: nothing clamps the output size. The width and height that
  \<^verbatim>\<open>resizeToBlobUrl\<close> assigns to the canvas and returns in its result are the target
  dimensions as computed. In percent mode these are
  \<^verbatim>\<open>Math.round(natural * (percent / 100))\<close>; for a percent from 1 to 200 they are
  non-negative integers, at least 1 exactly when natural dimension times percent is at
  least 50 (the scaled value is at least one half) and 0 otherwise. With percent off the
  output width is the stored width as it is. The output height is the stored height when
  keep-aspect is off; with keep-aspect on it is \<^verbatim>\<open>Math.round(width / aspect)\<close> for every
  stored width, at least 1 exactly when that quotient (if finite) is at least one half, and
  0 for a stored width of 0 on an image of positive natural dimensions.
\<close>

theorem dims_not_clamped:
  "(usePercent s \<longrightarrow>
      targetDims s img =
        (Math_round (js_mul (num_of_ulong (naturalWidth img)) (js_div (percent s) (Fin 100))),
         Math_round (js_mul (num_of_ulong (naturalHeight img)) (js_div (percent s) (Fin 100)))))
   \<and> (usePercent s \<and> percent s = Fin (of_nat p) \<and> 1 \<le> p \<and> p \<le> 200 \<longrightarrow>
      (\<exists>kw kh. targetDims s img = (Fin (of_int kw), Fin (of_int kh))
         \<and> 0 \<le> kw \<and> (1 \<le> kw \<longleftrightarrow> 50 \<le> unat (naturalWidth img) * p)
         \<and> 0 \<le> kh \<and> (1 \<le> kh \<longleftrightarrow> 50 \<le> unat (naturalHeight img) * p)))
   \<and> (\<not> usePercent s \<and> \<not> keepAspect s \<longrightarrow> targetDims s img = (width s, height s))
   \<and> (\<not> usePercent s \<and> keepAspect s \<longrightarrow>
        targetDims s img =
          (width s,
           Math_round (js_div (width s)
             (js_div (num_of_ulong (naturalWidth img)) (num_of_ulong (naturalHeight img)))))
        \<and> (\<forall>g. js_div (width s)
                 (js_div (num_of_ulong (naturalWidth img)) (num_of_ulong (naturalHeight img))) = Fin g
              \<longrightarrow> snd (targetDims s img) = Fin (of_int \<lfloor>g + 1 / 2\<rfloor>)
                  \<and> (1 \<le> \<lfloor>g + 1 / 2\<rfloor> \<longleftrightarrow> 1 / 2 \<le> g))
        \<and> (width s = Fin 0 \<and> naturalWidth img \<noteq> 0 \<and> naturalHeight img \<noteq> 0
              \<longrightarrow> targetDims s img = (Fin 0, Fin 0)))
   \<and> (image_s s = Some img \<and> canvasRef s = Some c \<longrightarrow>
        canvasRef (snd (resizeToBlobUrl P s)) =
          Some (c\<lparr>cwidth := fst (targetDims s img), cheight := snd (targetDims s img),
                  drawn := Some img\<rparr>)
        \<and> (\<forall>b. toBlob P (drawCanvas s img c) (format s) (quality s) = Some b \<longrightarrow>
              fst (resizeToBlobUrl P s) =
                Resolved (Some \<lparr>res_blob = b, res_url = createObjectURL P b,
                                 res_width = fst (targetDims s img),
                                 res_height = snd (targetDims s img)\<rparr>)))"
proof -
  have raw: "targetDims s img =
        (Math_round (js_mul (num_of_ulong (naturalWidth img)) (js_div (percent s) (Fin 100))),
         Math_round (js_mul (num_of_ulong (naturalHeight img)) (js_div (percent s) (Fin 100))))"
    if "usePercent s"
    using that by (simp add: targetDims_def Let_def)
  have pct: "\<exists>kw kh. targetDims s img = (Fin (of_int kw), Fin (of_int kh))
         \<and> 0 \<le> kw \<and> (1 \<le> kw \<longleftrightarrow> 50 \<le> unat (naturalWidth img) * p)
         \<and> 0 \<le> kh \<and> (1 \<le> kh \<longleftrightarrow> 50 \<le> unat (naturalHeight img) * p)"
    if "usePercent s" "percent s = Fin (of_nat p)" "1 \<le> p" "p \<le> 200"
  proof -
    from percent_dim_sign [OF that(3,4), of "naturalWidth img"] obtain kw where
      w: "Math_round (js_mul (num_of_ulong (naturalWidth img)) (js_div (Fin (of_nat p)) (Fin 100)))
          = Fin (of_int kw)"
      "0 \<le> kw" "1 \<le> kw \<longleftrightarrow> 50 \<le> unat (naturalWidth img) * p"
      by blast
    from percent_dim_sign [OF that(3,4), of "naturalHeight img"] obtain kh where
      h: "Math_round (js_mul (num_of_ulong (naturalHeight img)) (js_div (Fin (of_nat p)) (Fin 100)))
          = Fin (of_int kh)"
      "0 \<le> kh" "1 \<le> kh \<longleftrightarrow> 50 \<le> unat (naturalHeight img) * p"
      by blast
    have "targetDims s img = (Fin (of_int kw), Fin (of_int kh))"
      unfolding targetDims_def Let_def using that(1,2) w(1) h(1) by (simp only: if_True)
    with w(2,3) h(2,3) show ?thesis by blast
  qed
  have abs: "targetDims s img = (width s, height s)" if "\<not> usePercent s" "\<not> keepAspect s"
    using that by (simp add: targetDims_def)
  have asp: "targetDims s img =
          (width s,
           Math_round (js_div (width s)
             (js_div (num_of_ulong (naturalWidth img)) (num_of_ulong (naturalHeight img)))))"
    if "\<not> usePercent s" "keepAspect s"
    using that by (simp add: targetDims_def Let_def)
  have rnd: "snd (targetDims s img) = Fin (of_int \<lfloor>g + 1 / 2\<rfloor>)
      \<and> (1 \<le> \<lfloor>g + 1 / 2\<rfloor> \<longleftrightarrow> 1 / 2 \<le> g)"
    if "\<not> usePercent s" "keepAspect s"
      "js_div (width s)
         (js_div (num_of_ulong (naturalWidth img)) (num_of_ulong (naturalHeight img))) = Fin g"
    for g
  proof -
    have "snd (targetDims s img) = Fin (of_int \<lfloor>g + 1 / 2\<rfloor>)"
      using asp [OF that(1,2)] that(3) by (simp only: snd_conv Math_round.simps)
    moreover have "1 \<le> \<lfloor>g + 1 / 2\<rfloor> \<longleftrightarrow> 1 / 2 \<le> g"
    proof -
      have "1 \<le> \<lfloor>g + 1 / 2\<rfloor> \<longleftrightarrow> of_int 1 \<le> g + 1 / 2" by (simp only: le_floor_iff)
      also have "\<dots> \<longleftrightarrow> 1 / 2 \<le> g" by auto
      finally show ?thesis .
    qed
    ultimately show ?thesis by blast
  qed
  have zero: "targetDims s img = (Fin 0, Fin 0)"
    if "\<not> usePercent s" "keepAspect s" "width s = Fin 0"
      "naturalWidth img \<noteq> 0" "naturalHeight img \<noteq> 0"
    using asp [OF that(1,2)] that(3) zero_over_aspect(1) [OF that(4,5)]
    by (simp only:)
  have cv: "canvasRef (snd (resizeToBlobUrl P s)) =
          Some (c\<lparr>cwidth := fst (targetDims s img), cheight := snd (targetDims s img),
                  drawn := Some img\<rparr>)"
    if "image_s s = Some img" "canvasRef s = Some c"
    using that
    by (simp add: resizeToBlobUrl_def drawCanvas_def Let_def split: prod.splits option.splits)
  have res: "fst (resizeToBlobUrl P s) =
                Resolved (Some \<lparr>res_blob = b, res_url = createObjectURL P b,
                                 res_width = fst (targetDims s img),
                                 res_height = snd (targetDims s img)\<rparr>)"
    if "image_s s = Some img" "canvasRef s = Some c"
      "toBlob P (drawCanvas s img c) (format s) (quality s) = Some b" for b
    using that
    by (simp add: resizeToBlobUrl_def Let_def split: prod.splits)
  show ?thesis
    using raw pct abs asp rnd zero cv res by blast
qed

text \<open>
  800 by 600 at 50 percent gives a result of 400 by 300; width 1 typed on an 800 by 1
  image gives a target and a canvas of 1 by 0; the emptied width field gives 0 by 0.
\<close>

theorem dims_not_clamped_witness:
  "targetDims (state_percent \<lparr>naturalWidth = 800, naturalHeight = 600\<rparr> 50)
       \<lparr>naturalWidth = 800, naturalHeight = 600\<rparr> = (Fin 400, Fin 300)
   \<and> fst (resizeToBlobUrl stub_browser (state_percent \<lparr>naturalWidth = 800, naturalHeight = 600\<rparr> 50))
       = Resolved (Some \<lparr>res_blob = [137, 80, 78, 71], res_url = ''blob:resized'',
                         res_width = Fin 400, res_height = Fin 300\<rparr>)
   \<and> targetDims
        (handleWidthChange stub_browser ''1'' (state_loaded \<lparr>naturalWidth = 800, naturalHeight = 1\<rparr>))
        \<lparr>naturalWidth = 800, naturalHeight = 1\<rparr> = (Fin 1, Fin 0)
   \<and> canvasRef (snd (resizeToBlobUrl stub_browser
        (handleWidthChange stub_browser ''1'' (state_loaded \<lparr>naturalWidth = 800, naturalHeight = 1\<rparr>))))
       = Some \<lparr>cwidth = Fin 1, cheight = Fin 0,
               drawn = Some \<lparr>naturalWidth = 800, naturalHeight = 1\<rparr>\<rparr>
   \<and> targetDims state_width_cleared \<lparr>naturalWidth = 800, naturalHeight = 600\<rparr> = (Fin 0, Fin 0)"
proof -
  let ?i = "\<lparr>naturalWidth = 800, naturalHeight = 600\<rparr>"
  let ?j = "\<lparr>naturalWidth = 800, naturalHeight = 1\<rparr>"
  let ?c = "\<lparr>cwidth = Fin 300, cheight = Fin 150, drawn = None\<rparr>"
  let ?p = "state_percent ?i 50"
  let ?w = "(state_loaded ?j)\<lparr>width := Fin 1, height := Fin 0\<rparr>"
  have t50: "targetDims ?p ?i = (Fin 400, Fin 300)" by (rule targetDims_800x600_at_50)
  have blob: "toBlob stub_browser (drawCanvas ?p ?i ?c) (format ?p) (quality ?p)
      = Some [137, 80, 78, 71]"
    by (simp add: drawCanvas_def t50 stub_browser_def has_pixels_def)
  have r50: "fst (resizeToBlobUrl stub_browser ?p)
      = Resolved (Some \<lparr>res_blob = [137, 80, 78, 71], res_url = ''blob:resized'',
                         res_width = Fin 400, res_height = Fin 300\<rparr>)"
    using dims_not_clamped [of ?p ?i 50 ?c stub_browser] blob
    by (simp add: state_percent_simps t50) (simp add: stub_browser_def)
  have w: "\<not> usePercent ?w" "keepAspect ?w" "width ?w = Fin 1" "image_s ?w = Some ?j"
    "canvasRef ?w = Some ?c"
    by (simp_all add: state_loaded_simps)
  have t1: "targetDims ?w ?j = (Fin 1, Fin 0)"
    using dims_not_clamped [of ?w ?j 50 ?c stub_browser] w(1-3) aspect_800x1 height_for_width_1
    by (simp del: js_mul.simps js_div.simps Math_round.simps)
  have c1: "canvasRef (snd (resizeToBlobUrl stub_browser ?w))
      = Some \<lparr>cwidth = Fin 1, cheight = Fin 0, drawn = Some ?j\<rparr>"
    using dims_not_clamped [of ?w ?j 50 ?c stub_browser] w(4,5) by (simp add: t1)
  have c: "\<not> usePercent state_width_cleared" "keepAspect state_width_cleared"
    "width state_width_cleared = Fin 0"
    by (simp_all add: state_width_cleared_eq state_loaded_simps)
  have nz: "naturalWidth ?i \<noteq> 0" "naturalHeight ?i \<noteq> 0" by simp_all
  have t0: "targetDims state_width_cleared ?i = (Fin 0, Fin 0)"
    using dims_not_clamped [of state_width_cleared ?i 50 ?c stub_browser] c nz by blast
  show ?thesis using t50 r50 t1 c1 t0 by (simp only: width_1_on_800x1 simp_thms)
qed

end
